theory Spec2Isabelle
  imports Main "HOL-Library.Sublist" "HOL-Library.Char_ord" "HOL-Library.List_Lexorder"
begin

section \<open>Python strings\<close>

text \<open>
  Paths, HTTP verbs and source texts are modelled as \<^typ>\<open>string\<close>; the case
  mappings are the ASCII ones (the texts the analysers read are ASCII source code).
\<close>

definition upper_char :: "char \<Rightarrow> char" where
  "upper_char c =
     (case map_of (zip ''abcdefghijklmnopqrstuvwxyz'' ''ABCDEFGHIJKLMNOPQRSTUVWXYZ'') c of
        None \<Rightarrow> c | Some u \<Rightarrow> u)"

definition lower_char :: "char \<Rightarrow> char" where
  "lower_char c =
     (case map_of (zip ''ABCDEFGHIJKLMNOPQRSTUVWXYZ'' ''abcdefghijklmnopqrstuvwxyz'') c of
        None \<Rightarrow> c | Some l \<Rightarrow> l)"

definition upper :: "string \<Rightarrow> string" where
  "upper s = map upper_char s"

definition lower :: "string \<Rightarrow> string" where
  "lower s = map lower_char s"

text \<open>\<^verbatim>\<open>s.strip(c)\<close> for a one-character argument.\<close>

definition strip :: "char \<Rightarrow> string \<Rightarrow> string" where
  "strip c s = rev (dropWhile (\<lambda>x. x = c) (rev (dropWhile (\<lambda>x. x = c) s)))"

text \<open>\<^verbatim>\<open>a in b\<close> on strings: \<open>a\<close> occurs in \<open>b\<close> as a contiguous run.\<close>

fun str_in :: "string \<Rightarrow> string \<Rightarrow> bool" where
  "str_in a [] = (a = [])"
| "str_in a (y # ys) = (prefix a (y # ys) \<or> str_in a ys)"

section \<open>Gap reporter (agents/gap\_reporter.py)\<close>

text \<open>
  A contract's metadata dictionary, a backend route object and a UI call dictionary
  are all read through string keys; \<open>None\<close> stands for an absent key or attribute
  and for the Python value \<^verbatim>\<open>None\<close>, which \<^verbatim>\<open>_get\<close> treats alike.
  In a contract, \<open>None\<close> says that the object has no such attribute; an attribute
  that holds \<^verbatim>\<open>None\<close> reads like an empty dictionary.
\<close>

type_synonym attrs = "string \<rightharpoonup> string"

text \<open>
  A backend route is a dictionary, given by its items, or an object, given by its
  attributes. \<^verbatim>\<open>_get\<close> reads both; the contract loop also takes the truth value of
  the route it found (\<^verbatim>\<open>if not match\<close>): a dictionary is false exactly when it is
  empty, an object (a dataclass instance, a \<^verbatim>\<open>SimpleNamespace\<close>) is true.
\<close>

datatype route = Dict "(string \<times> string option) list" | Obj attrs

record contract =
  metadata :: "attrs option"
  meta :: "attrs option"

definition get_attr :: "attrs \<Rightarrow> string \<Rightarrow> string" where
  "get_attr attr_obj key = (case attr_obj key of None \<Rightarrow> [] | Some v \<Rightarrow> v)"

fun get :: "route \<Rightarrow> string \<Rightarrow> string" where
  "get (Dict items) key = (case map_of items key of Some (Some v) \<Rightarrow> v | _ \<Rightarrow> [])"
| "get (Obj attr_obj) key = get_attr attr_obj key"

fun truthy :: "route \<Rightarrow> bool" where
  "truthy (Dict items) = (items \<noteq> [])"
| "truthy (Obj attr_obj) = True"

text \<open>\<^verbatim>\<open>not match\<close>, for the result of \<^verbatim>\<open>next(..., None)\<close>.\<close>

definition falsy :: "route option \<Rightarrow> bool" where
  "falsy match = (case match of None \<Rightarrow> True | Some ep \<Rightarrow> \<not> truthy ep)"

definition normalize_path :: "string \<Rightarrow> string" where
  "normalize_path p = lower (strip CHR ''/'' p)"

definition paths_match :: "string \<Rightarrow> string \<Rightarrow> bool" where
  "paths_match a b =
     (let a_norm = normalize_path a; b_norm = normalize_path b
      in a_norm = b_norm \<or> str_in a_norm b_norm \<or> str_in b_norm a_norm)"

record gap_entry =
  ge_path :: string
  ge_method :: string
  ge_reason :: string

record mismatch_entry =
  mm_path :: string
  mm_contract_method :: string
  mm_backend_methods :: "string list"
  mm_reason :: string

record gap_report =
  missing_backend_endpoints :: "gap_entry list"
  backend_without_contract :: "gap_entry list"
  contracts_not_used_in_flutter :: "gap_entry list"
  method_mismatches :: "mismatch_entry list"

text \<open>The index of backend methods by normalized path (a dict of sets).\<close>

definition index_add :: "route \<Rightarrow> (string \<rightharpoonup> string set) \<Rightarrow> (string \<rightharpoonup> string set)" where
  "index_add ep idx =
     (let path = get ep ''path''; method = upper (get ep ''method'');
          k = normalize_path path
      in idx(k \<mapsto> insert method (case idx k of None \<Rightarrow> {} | Some s \<Rightarrow> s)))"

definition backend_by_path :: "route list \<Rightarrow> (string \<rightharpoonup> string set)" where
  "backend_by_path backend_endpoints = fold index_add backend_endpoints Map.empty"

text \<open>
  The metadata a contract is read through: in the contract loop the attribute
  \<^verbatim>\<open>metadata\<close> when the object has one, else \<^verbatim>\<open>meta\<close>, else an empty dict.
\<close>

definition contract_meta :: "contract \<Rightarrow> attrs" where
  "contract_meta c =
     (case metadata c of Some m \<Rightarrow> m
      | None \<Rightarrow> (case meta c of Some m \<Rightarrow> m | None \<Rightarrow> Map.empty))"

text \<open>In the loop over backend routes only \<^verbatim>\<open>metadata\<close> is consulted.\<close>

definition contract_metadata_only :: "contract \<Rightarrow> attrs" where
  "contract_metadata_only c = (case metadata c of Some m \<Rightarrow> m | None \<Rightarrow> Map.empty)"

definition ep_matches :: "string \<Rightarrow> string \<Rightarrow> route \<Rightarrow> bool" where
  "ep_matches path method ep =
     (paths_match path (get ep ''path'') \<and> method = upper (get ep ''method''))"

text \<open>\<^verbatim>\<open>next((ep for ep in backend_endpoints if ...), None)\<close>\<close>

definition find_match :: "route list \<Rightarrow> string \<Rightarrow> string \<Rightarrow> route option" where
  "find_match backend_endpoints path method = find (ep_matches path method) backend_endpoints"

definition flutter_used :: "attrs list \<Rightarrow> string \<Rightarrow> bool" where
  "flutter_used flutter_calls path =
     list_ex (\<lambda>call. paths_match path (get_attr call ''endpoint'')) flutter_calls"

text \<open>
  One iteration of the loop over the contracts; the state is the three lists the
  loop appends to: missing, not used, mismatches.
\<close>

definition contract_step ::
  "route list \<Rightarrow> (string \<rightharpoonup> string set) \<Rightarrow> attrs list \<Rightarrow> contract \<Rightarrow>
   gap_entry list \<times> gap_entry list \<times> mismatch_entry list \<Rightarrow>
   gap_entry list \<times> gap_entry list \<times> mismatch_entry list" where
  "contract_step backend_endpoints by_path flutter_calls c st =
     (case st of (missing, not_used, mismatches) \<Rightarrow>
      let path = get_attr (contract_meta c) ''path'';
          method = upper (get_attr (contract_meta c) ''method'');
          match = find_match backend_endpoints path method;
          (missing', mismatches') =
            (if falsy match
             then (case by_path (normalize_path path) of
                     Some methods \<Rightarrow>
                       (missing,
                        mismatches @
                          [\<lparr>mm_path = path, mm_contract_method = method,
                            mm_backend_methods = sorted_list_of_set methods,
                            mm_reason = ''Method differs between contract and backend''\<rparr>])
                   | None \<Rightarrow>
                       (missing @
                          [\<lparr>ge_path = path, ge_method = method,
                            ge_reason = ''No matching FastAPI endpoint''\<rparr>],
                        mismatches))
             else (missing, mismatches));
          not_used' =
            (if \<not> flutter_used flutter_calls path
             then not_used @
                    [\<lparr>ge_path = path, ge_method = method,
                      ge_reason = ''Not called from Flutter''\<rparr>]
             else not_used)
      in (missing', not_used', mismatches'))"

definition has_contract :: "contract list \<Rightarrow> route \<Rightarrow> bool" where
  "has_contract api_contracts ep =
     list_ex (\<lambda>c. paths_match (get_attr (contract_metadata_only c) ''path'') (get ep ''path'')
                 \<and> upper (get_attr (contract_metadata_only c) ''method'')
                     = upper (get ep ''method''))
       api_contracts"

definition backend_step :: "contract list \<Rightarrow> route \<Rightarrow> gap_entry list \<Rightarrow> gap_entry list" where
  "backend_step api_contracts ep acc =
     (if \<not> has_contract api_contracts ep
      then acc @ [\<lparr>ge_path = get ep ''path'', ge_method = upper (get ep ''method''),
                   ge_reason = ''Endpoint not covered by contract''\<rparr>]
      else acc)"

definition compute_gap_report :: "contract list \<Rightarrow> route list \<Rightarrow> attrs list \<Rightarrow> gap_report" where
  "compute_gap_report api_contracts backend_endpoints flutter_calls =
     (let by_path = backend_by_path backend_endpoints;
          (missing, not_used, mismatches) =
             fold (contract_step backend_endpoints by_path flutter_calls) api_contracts ([], [], []);
          without = fold (backend_step api_contracts) backend_endpoints []
      in \<lparr>missing_backend_endpoints = missing,
          backend_without_contract = without,
          contracts_not_used_in_flutter = not_used,
          method_mismatches = mismatches\<rparr>)"

text \<open>What a contract contributes to the report, and how a contract is looked up in it.\<close>

definition contract_path :: "contract \<Rightarrow> string" where
  "contract_path c = get_attr (contract_meta c) ''path''"

definition contract_method :: "contract \<Rightarrow> string" where
  "contract_method c = upper (get_attr (contract_meta c) ''method'')"

definition has_backend_match :: "route list \<Rightarrow> contract \<Rightarrow> bool" where
  "has_backend_match backend_endpoints c =
     list_ex (ep_matches (contract_path c) (contract_method c)) backend_endpoints"

text \<open>The test \<^verbatim>\<open>if not match\<close> of the contract loop, at a contract.\<close>

definition not_match :: "route list \<Rightarrow> contract \<Rightarrow> bool" where
  "not_match backend_endpoints c =
     falsy (find_match backend_endpoints (contract_path c) (contract_method c))"

definition in_missing :: "gap_report \<Rightarrow> contract \<Rightarrow> bool" where
  "in_missing r c =
     list_ex (\<lambda>e. ge_path e = contract_path c \<and> ge_method e = contract_method c)
       (missing_backend_endpoints r)"

definition in_mismatches :: "gap_report \<Rightarrow> contract \<Rightarrow> bool" where
  "in_mismatches r c =
     list_ex (\<lambda>e. mm_path e = contract_path c \<and> mm_contract_method e = contract_method c)
       (method_mismatches r)"

definition in_not_used :: "gap_report \<Rightarrow> contract \<Rightarrow> bool" where
  "in_not_used r c =
     list_ex (\<lambda>e. ge_path e = contract_path c \<and> ge_method e = contract_method c)
       (contracts_not_used_in_flutter r)"

definition missing_of :: "contract \<Rightarrow> gap_entry" where
  "missing_of c = \<lparr>ge_path = contract_path c, ge_method = contract_method c,
                   ge_reason = ''No matching FastAPI endpoint''\<rparr>"

definition not_used_of :: "contract \<Rightarrow> gap_entry" where
  "not_used_of c = \<lparr>ge_path = contract_path c, ge_method = contract_method c,
                   ge_reason = ''Not called from Flutter''\<rparr>"

definition mismatch_of :: "(string \<rightharpoonup> string set) \<Rightarrow> contract \<Rightarrow> mismatch_entry" where
  "mismatch_of by_path c =
     \<lparr>mm_path = contract_path c, mm_contract_method = contract_method c,
      mm_backend_methods = sorted_list_of_set (the (by_path (normalize_path (contract_path c)))),
      mm_reason = ''Method differs between contract and backend''\<rparr>"

text \<open>The routes whose normalized path is exactly that of the contract, and their verbs.\<close>

definition same_path_eps :: "route list \<Rightarrow> contract \<Rightarrow> route list" where
  "same_path_eps backend_endpoints c =
     filter (\<lambda>ep. normalize_path (get ep ''path'') = normalize_path (contract_path c))
       backend_endpoints"

definition methods_at :: "route list \<Rightarrow> contract \<Rightarrow> string list" where
  "methods_at backend_endpoints c =
     sorted_list_of_set
       (set (map (\<lambda>ep. upper (get ep ''method'')) (same_path_eps backend_endpoints c)))"

text \<open>The input of the repository's unit test (tests/unit/test\_gap\_reporter.py).\<close>

definition contract_of :: "string \<Rightarrow> string \<Rightarrow> contract" where
  "contract_of p m = \<lparr>metadata = Some [''path'' \<mapsto> p, ''method'' \<mapsto> m], meta = None\<rparr>"

definition endpoint_of :: "string \<Rightarrow> string \<Rightarrow> route" where
  "endpoint_of p m = Obj [''path'' \<mapsto> p, ''method'' \<mapsto> m]"

definition test_contracts :: "contract list" where
  "test_contracts =
     [contract_of ''/v1/foo'' ''GET'', contract_of ''/v1/bar'' ''POST'',
      contract_of ''/v1/baz'' ''PUT'']"

definition test_backend_endpoints :: "route list" where
  "test_backend_endpoints =
     [endpoint_of ''/v1/foo'' ''GET'', endpoint_of ''/v1/bar'' ''GET'',
      endpoint_of ''/v1/qux'' ''DELETE'']"

definition test_flutter_calls :: "attrs list" where
  "test_flutter_calls = [[''endpoint'' \<mapsto> ''/v1/foo'', ''method'' \<mapsto> ''GET'']]"



section \<open>Values, timestamps, printing of integers\<close>

text \<open>
  The value of a literal constant of the backend source (\<^verbatim>\<open>ast.Constant.value\<close>):
  a string, an integer, a float (kept as its decimal text), a boolean or \<^verbatim>\<open>None\<close>.
  Bytes, complex and \<^verbatim>\<open>...\<close> literals are left out.
\<close>

datatype const_value = CStr string | CInt int | CFloat string | CBool bool | CNone

text \<open>
  Metadata dictionaries are written to the store through \<^verbatim>\<open>json.dumps\<close>; a column
  holding that text is modelled by the JSON value the text encodes. A float literal
  is kept as its decimal text.
\<close>

datatype json = JNull | JBool bool | JStr string | JInt int | JNum string | JList "json list"
  | JObj "(string \<times> json) list"

type_synonym timestamp = nat

datatype error = AttributeError | TypeError

text \<open>\<^verbatim>\<open>str(n)\<close> of an integer, as an f-string prints it.\<close>

fun str_nat :: "nat \<Rightarrow> string" where
  "str_nat n =
     (if n < 10 then [''0123456789'' ! n]
      else str_nat (n div 10) @ [''0123456789'' ! (n mod 10)])"

declare str_nat.simps [simp del]

definition str_int :: "int \<Rightarrow> string" where
  "str_int i = (if i < 0 then CHR ''-'' # str_nat (nat (- i)) else str_nat (nat i))"

section \<open>Extraction records (analyzers)\<close>

text \<open>The dataclasses \<^verbatim>\<open>FlutterWidget\<close>, \<^verbatim>\<open>APIEndpoint\<close> and \<^verbatim>\<open>PydanticModel\<close>.\<close>

record flutter_widget =
  fw_name :: string
  fw_type :: string
  fw_file_path :: string
  fw_line_start :: nat
  fw_line_end :: nat
  fw_dependencies :: "string list"
  fw_api_calls :: "string list"
  fw_navigation_routes :: "string list"
  fw_form_fields :: "string list"
  fw_validators :: "string list"

record api_endpoint =
  ep_name :: string
  ep_method :: string
  ep_path :: const_value
  ep_function_name :: string
  ep_file_path :: string
  ep_line_number :: nat
  ep_parameters :: json
  ep_return_type :: "string option"
  ep_dependencies :: "string list"
  ep_middleware :: "string list"

record pydantic_model =
  pm_name :: string
  pm_file_path :: string
  pm_line_number :: nat
  pm_fields :: json
  pm_base_classes :: "string list"
  pm_validators :: "string list"

text \<open>An outbound-call dictionary, with the keys the UI extractor writes.\<close>

record api_call =
  ac_type :: string
  ac_method :: string
  ac_endpoint :: string
  ac_file_path :: string
  ac_line :: nat

section \<open>Structured store (memory/structured\_store.py)\<close>

text \<open>The dataclasses \<^verbatim>\<open>CodeEntity\<close> and \<^verbatim>\<open>Relationship\<close>.\<close>

record code_entity =
  ce_id :: string
  ce_type :: string
  ce_name :: string
  ce_file_path :: string
  ce_language :: string
  ce_metadata :: json
  ce_created_at :: timestamp
  ce_updated_at :: timestamp

record relationship =
  rel_id :: string
  rel_source_entity_id :: string
  rel_target_entity_id :: string
  rel_relationship_type :: string
  rel_metadata :: json
  rel_created_at :: timestamp

text \<open>
  The tables \<^verbatim>\<open>init_db\<close> creates, each a list of rows in insertion order. The SQL
  is executed by SQLite, which is not part of the repository; the statements are
  modelled by what SQLite documents for them. The table \<^verbatim>\<open>change_requests\<close>, which
  no operation below touches, is left out.
\<close>

record entity_row =
  er_id :: string
  er_type :: string
  er_name :: string
  er_file_path :: string
  er_language :: string
  er_metadata :: json
  er_created_at :: timestamp
  er_updated_at :: timestamp

record relationship_row =
  rr_id :: string
  rr_source_entity_id :: string
  rr_target_entity_id :: string
  rr_relationship_type :: string
  rr_metadata :: json
  rr_created_at :: timestamp

record api_mapping_row =
  am_id :: string
  am_flutter_widget_id :: string
  am_python_endpoint_id :: string
  am_mapping_type :: string
  am_metadata :: json
  am_created_at :: timestamp

record database =
  code_entities :: "entity_row list"
  relationships :: "relationship_row list"
  api_mappings :: "api_mapping_row list"

text \<open>The database \<^verbatim>\<open>init_db\<close> leaves when the file is new: every table empty.\<close>

definition init_db :: database where
  "init_db = \<lparr>code_entities = [], relationships = [], api_mappings = []\<rparr>"

text \<open>
  \<^verbatim>\<open>INSERT OR REPLACE\<close> into a table whose primary key is the column \<open>key\<close>: the rows
  that conflict with the new row on the key are deleted, then the new row is inserted.
\<close>

definition insert_or_replace :: "('r \<Rightarrow> string) \<Rightarrow> 'r \<Rightarrow> 'r list \<Rightarrow> 'r list" where
  "insert_or_replace key row table = filter (\<lambda>r. key r \<noteq> key row) table @ [row]"

text \<open>
  Each operation takes \<open>ok\<close>, whether the connection and the statement succeed (an
  exception is caught and turned into the result \<^verbatim>\<open>False\<close>), and the time \<open>t\<close> at which
  it runs, read by \<^verbatim>\<open>datetime.now()\<close> and by the column default
  \<^verbatim>\<open>CURRENT_TIMESTAMP\<close>. A column that the statement does not list takes its default.
\<close>

definition add_entity :: "bool \<Rightarrow> timestamp \<Rightarrow> code_entity \<Rightarrow> database \<Rightarrow> bool \<times> database" where
  "add_entity ok t entity db =
     (if ok then
        (True,
         db\<lparr>code_entities :=
              insert_or_replace er_id
                \<lparr>er_id = ce_id entity, er_type = ce_type entity, er_name = ce_name entity,
                 er_file_path = ce_file_path entity, er_language = ce_language entity,
                 er_metadata = ce_metadata entity, er_created_at = t, er_updated_at = t\<rparr>
                (code_entities db)\<rparr>)
      else (False, db))"

definition add_relationship :: "bool \<Rightarrow> timestamp \<Rightarrow> relationship \<Rightarrow> database \<Rightarrow> bool \<times> database" where
  "add_relationship ok t r db =
     (if ok then
        (True,
         db\<lparr>relationships :=
              insert_or_replace rr_id
                \<lparr>rr_id = rel_id r, rr_source_entity_id = rel_source_entity_id r,
                 rr_target_entity_id = rel_target_entity_id r,
                 rr_relationship_type = rel_relationship_type r,
                 rr_metadata = rel_metadata r, rr_created_at = t\<rparr>
                (relationships db)\<rparr>)
      else (False, db))"

definition add_api_mapping ::
  "bool \<Rightarrow> timestamp \<Rightarrow> string \<Rightarrow> string \<Rightarrow> string \<Rightarrow> json \<Rightarrow> database \<Rightarrow> bool \<times> database" where
  "add_api_mapping ok t flutter_widget_id python_endpoint_id mapping_type md db =
     (if ok then
        (let mapping_id = flutter_widget_id @ ''_'' @ python_endpoint_id
         in (True,
             db\<lparr>api_mappings :=
                  insert_or_replace am_id
                    \<lparr>am_id = mapping_id, am_flutter_widget_id = flutter_widget_id,
                     am_python_endpoint_id = python_endpoint_id,
                     am_mapping_type = mapping_type, am_metadata = md, am_created_at = t\<rparr>
                    (api_mappings db)\<rparr>))
      else (False, db))"

section \<open>Storing the analysis results (agents/orchestrator.py)\<close>

text \<open>
  Entity ids are built with the built-in \<^verbatim>\<open>hash\<close> of the file path. For strings
  \<^verbatim>\<open>hash\<close> is salted with a value chosen when the interpreter starts, so every
  function below takes the hash function \<open>h\<close> of the process it runs in.
\<close>

definition json_strs :: "string list \<Rightarrow> json" where
  "json_strs xs = JList (map JStr xs)"

definition json_const :: "const_value \<Rightarrow> json" where
  "json_const v =
     (case v of CStr s \<Rightarrow> JStr s | CInt i \<Rightarrow> JInt i | CFloat f \<Rightarrow> JNum f
      | CBool b \<Rightarrow> JBool b | CNone \<Rightarrow> JNull)"

definition widget_entity_id :: "(string \<Rightarrow> int) \<Rightarrow> flutter_widget \<Rightarrow> string" where
  "widget_entity_id h widget =
     ''flutter_widget_'' @ fw_name widget @ ''_'' @ str_int (h (fw_file_path widget))"

definition endpoint_entity_id :: "(string \<Rightarrow> int) \<Rightarrow> api_endpoint \<Rightarrow> string" where
  "endpoint_entity_id h endpoint =
     ''python_endpoint_'' @ ep_name endpoint @ ''_'' @ str_int (h (ep_file_path endpoint))"

definition model_entity_id :: "(string \<Rightarrow> int) \<Rightarrow> pydantic_model \<Rightarrow> string" where
  "model_entity_id h model =
     ''python_model_'' @ pm_name model @ ''_'' @ str_int (h (pm_file_path model))"

definition widget_entity :: "(string \<Rightarrow> int) \<Rightarrow> timestamp \<Rightarrow> flutter_widget \<Rightarrow> code_entity" where
  "widget_entity h t widget =
     \<lparr>ce_id = widget_entity_id h widget, ce_type = ''widget'', ce_name = fw_name widget,
      ce_file_path = fw_file_path widget, ce_language = ''dart'',
      ce_metadata = JObj
        [(''widget_type'', JStr (fw_type widget)),
         (''dependencies'', json_strs (fw_dependencies widget)),
         (''api_calls'', json_strs (fw_api_calls widget)),
         (''navigation_routes'', json_strs (fw_navigation_routes widget)),
         (''form_fields'', json_strs (fw_form_fields widget)),
         (''validators'', json_strs (fw_validators widget))],
      ce_created_at = t, ce_updated_at = t\<rparr>"

definition endpoint_entity :: "(string \<Rightarrow> int) \<Rightarrow> timestamp \<Rightarrow> api_endpoint \<Rightarrow> code_entity" where
  "endpoint_entity h t endpoint =
     \<lparr>ce_id = endpoint_entity_id h endpoint, ce_type = ''api_endpoint'',
      ce_name = ep_name endpoint, ce_file_path = ep_file_path endpoint,
      ce_language = ''python'',
      ce_metadata = JObj
        [(''method'', JStr (ep_method endpoint)),
         (''path'', json_const (ep_path endpoint)),
         (''parameters'', ep_parameters endpoint),
         (''return_type'', (case ep_return_type endpoint of None \<Rightarrow> JNull | Some r \<Rightarrow> JStr r)),
         (''dependencies'', json_strs (ep_dependencies endpoint))],
      ce_created_at = t, ce_updated_at = t\<rparr>"

definition model_entity :: "(string \<Rightarrow> int) \<Rightarrow> timestamp \<Rightarrow> pydantic_model \<Rightarrow> code_entity" where
  "model_entity h t model =
     \<lparr>ce_id = model_entity_id h model, ce_type = ''model'', ce_name = pm_name model,
      ce_file_path = pm_file_path model, ce_language = ''python'',
      ce_metadata = JObj
        [(''fields'', pm_fields model),
         (''base_classes'', json_strs (pm_base_classes model)),
         (''validators'', json_strs (pm_validators model))],
      ce_created_at = t, ce_updated_at = t\<rparr>"

text \<open>The results of the two analysers, as far as they are stored.\<close>

record flutter_results =
  fr_widgets :: "flutter_widget list"
  fr_api_calls :: "api_call list"

record python_results =
  pr_endpoints :: "api_endpoint list"
  pr_models :: "pydantic_model list"

text \<open>
  The three loops of \<^verbatim>\<open>_store_analysis_results\<close>; the result of \<^verbatim>\<open>add_entity\<close> is
  ignored there, and the writes to the vector store are outside this model.
\<close>

definition store_entities :: "bool \<Rightarrow> timestamp \<Rightarrow> code_entity list \<Rightarrow> database \<Rightarrow> database" where
  "store_entities ok t es db = fold (\<lambda>e d. snd (add_entity ok t e d)) es db"

definition store_analysis_results ::
  "(string \<Rightarrow> int) \<Rightarrow> bool \<Rightarrow> timestamp \<Rightarrow> flutter_results \<Rightarrow> python_results \<Rightarrow> database \<Rightarrow> database" where
  "store_analysis_results h ok t fr pr db =
     (let db1 = store_entities ok t (map (widget_entity h t) (fr_widgets fr)) db;
          db2 = store_entities ok t (map (endpoint_entity h t) (pr_endpoints pr)) db1
      in store_entities ok t (map (model_entity h t) (pr_models pr)) db2)"

text \<open>The ids in the entity table, and the ids one run computes.\<close>

definition entity_ids :: "database \<Rightarrow> string list" where
  "entity_ids db = map er_id (code_entities db)"

definition run_ids :: "(string \<Rightarrow> int) \<Rightarrow> flutter_results \<Rightarrow> python_results \<Rightarrow> string set" where
  "run_ids h fr pr =
     set (map (widget_entity_id h) (fr_widgets fr)) \<union>
     set (map (endpoint_entity_id h) (pr_endpoints pr)) \<union>
     set (map (model_entity_id h) (pr_models pr))"

section \<open>Cross references (agents/memory\_agent.py, analyzer\_agent.py, orchestrator.py)\<close>

text \<open>
  \<^verbatim>\<open>MemoryAgent._paths_match\<close> and \<^verbatim>\<open>AnalyzerAgent._endpoints_match\<close>: both strip
  the slashes, lowercase, and test containment in either direction.
\<close>

definition clean_path :: "string \<Rightarrow> string" where
  "clean_path p = lower (strip CHR ''/'' p)"

definition ma_paths_match :: "string \<Rightarrow> string \<Rightarrow> bool" where
  "ma_paths_match path1 path2 =
     (let path1_clean = clean_path path1; path2_clean = clean_path path2
      in str_in path1_clean path2_clean \<or> str_in path2_clean path1_clean)"

definition endpoints_match :: "string \<Rightarrow> string \<Rightarrow> bool" where
  "endpoints_match flutter_endpoint python_endpoint =
     (let flutter_clean = clean_path flutter_endpoint; python_clean = clean_path python_endpoint
      in str_in flutter_clean python_clean \<or> str_in python_clean flutter_clean)"

text \<open>Every UI call is compared with every route, calls in the outer loop.\<close>

definition call_endpoint_pairs :: "api_call list \<Rightarrow> api_endpoint list \<Rightarrow> (api_call \<times> api_endpoint) list" where
  "call_endpoint_pairs calls endpoints = concat (map (\<lambda>c. map (Pair c) endpoints) calls)"

definition api_call_entity_id :: "(string \<Rightarrow> int) \<Rightarrow> api_call \<Rightarrow> string" where
  "api_call_entity_id h api_call =
     ''flutter_api_call_'' @ str_int (h (ac_file_path api_call)) @ ''_'' @ str_nat (ac_line api_call)"

definition cross_reference :: "(string \<Rightarrow> int) \<Rightarrow> timestamp \<Rightarrow> api_call \<Rightarrow> api_endpoint \<Rightarrow> relationship" where
  "cross_reference h t api_call endpoint =
     \<lparr>rel_id = ''api_call_'' @ str_int (h (ac_file_path api_call)) @ ''_''
                 @ str_int (h (ep_file_path endpoint)),
      rel_source_entity_id = api_call_entity_id h api_call,
      rel_target_entity_id = endpoint_entity_id h endpoint,
      rel_relationship_type = ''calls'',
      rel_metadata = JObj [(''endpoint'', JStr (ac_endpoint api_call)),
                           (''method'', JStr (ac_method api_call)),
                           (''confidence'', JNum ''0.8'')],
      rel_created_at = t\<rparr>"

text \<open>
  \<^verbatim>\<open>MemoryAgent._create_cross_references\<close>. A route whose path is not a string makes
  \<^verbatim>\<open>.strip\<close> raise; the loop stops there, with the rows written so far.
\<close>

fun cross_references_loop ::
  "(string \<Rightarrow> int) \<Rightarrow> bool \<Rightarrow> timestamp \<Rightarrow> (api_call \<times> api_endpoint) list \<Rightarrow> database
   \<Rightarrow> error option \<times> database" where
  "cross_references_loop h ok t [] db = (None, db)"
| "cross_references_loop h ok t ((api_call, endpoint) # rest) db =
     (case ep_path endpoint of
        CStr p \<Rightarrow>
          (if ma_paths_match (ac_endpoint api_call) p
           then cross_references_loop h ok t rest
                  (snd (add_relationship ok t (cross_reference h t api_call endpoint) db))
           else cross_references_loop h ok t rest db)
      | _ \<Rightarrow> (Some AttributeError, db))"

definition create_cross_references ::
  "(string \<Rightarrow> int) \<Rightarrow> bool \<Rightarrow> timestamp \<Rightarrow> flutter_results \<Rightarrow> python_results \<Rightarrow> database
   \<Rightarrow> error option \<times> database" where
  "create_cross_references h ok t fr pr db =
     cross_references_loop h ok t (call_endpoint_pairs (fr_api_calls fr) (pr_endpoints pr)) db"

definition no_self_edge :: "database \<Rightarrow> bool" where
  "no_self_edge db =
     list_all (\<lambda>r. rr_source_entity_id r \<noteq> rr_target_entity_id r) (relationships db)"

text \<open>A project with one widget, one UI call and one route, used as a concrete input.\<close>

definition home_widget :: flutter_widget where
  "home_widget =
     \<lparr>fw_name = ''HomePage'', fw_type = ''StatelessWidget'', fw_file_path = ''lib/home.dart'',
      fw_line_start = 1, fw_line_end = 3, fw_dependencies = [], fw_api_calls = [],
      fw_navigation_routes = [], fw_form_fields = [], fw_validators = []\<rparr>"

definition users_call :: api_call where
  "users_call =
     \<lparr>ac_type = ''dio'', ac_method = ''get'', ac_endpoint = ''/API/Users'',
      ac_file_path = ''lib/api.dart'', ac_line = 12\<rparr>"

definition users_endpoint :: api_endpoint where
  "users_endpoint =
     \<lparr>ep_name = ''list_users'', ep_method = ''GET'', ep_path = CStr ''/api/users'',
      ep_function_name = ''list_users'', ep_file_path = ''api/routes/users.py'',
      ep_line_number = 8, ep_parameters = JList [], ep_return_type = None,
      ep_dependencies = [], ep_middleware = []\<rparr>"

definition home_flutter :: flutter_results where
  "home_flutter = \<lparr>fr_widgets = [home_widget], fr_api_calls = [users_call]\<rparr>"

definition home_python :: python_results where
  "home_python = \<lparr>pr_endpoints = [users_endpoint], pr_models = []\<rparr>"

text \<open>\<^verbatim>\<open>AnalyzerAgent._map_api_calls\<close>: the mapping dictionaries it returns.\<close>

record api_mapping =
  map_flutter_endpoint :: string
  map_flutter_method :: string
  map_flutter_file :: string
  map_python_endpoint :: string
  map_python_method :: string
  map_python_file :: string
  map_python_function :: string
  map_confidence :: string

definition mapping_of :: "api_call \<Rightarrow> api_endpoint \<Rightarrow> string \<Rightarrow> api_mapping" where
  "mapping_of api_call endpoint p =
     \<lparr>map_flutter_endpoint = ac_endpoint api_call, map_flutter_method = ac_method api_call,
      map_flutter_file = ac_file_path api_call, map_python_endpoint = p,
      map_python_method = ep_method endpoint, map_python_file = ep_file_path endpoint,
      map_python_function = ep_name endpoint, map_confidence = ''0.9''\<rparr>"

fun map_api_calls_loop :: "(api_call \<times> api_endpoint) list \<Rightarrow> error + api_mapping list" where
  "map_api_calls_loop [] = Inr []"
| "map_api_calls_loop ((api_call, endpoint) # rest) =
     (case ep_path endpoint of
        CStr p \<Rightarrow>
          (case map_api_calls_loop rest of
             Inl e \<Rightarrow> Inl e
           | Inr mappings \<Rightarrow>
               Inr ((if endpoints_match (ac_endpoint api_call) p
                        \<and> upper (ac_method api_call) = ep_method endpoint
                     then [mapping_of api_call endpoint p] else []) @ mappings))
      | _ \<Rightarrow> Inl AttributeError)"

definition map_api_calls :: "flutter_results \<Rightarrow> python_results \<Rightarrow> error + api_mapping list" where
  "map_api_calls fr pr =
     map_api_calls_loop (call_endpoint_pairs (fr_api_calls fr) (pr_endpoints pr))"

text \<open>
  \<^verbatim>\<open>AgentOrchestrator._create_api_mappings\<close>, which writes the table
  \<^verbatim>\<open>api_mappings\<close>: the test is \<^verbatim>\<open>endpoint.path in endpoint_path or endpoint_path in
  endpoint.path\<close> on the paths as they are, and the verbs are not compared. A route
  path that is not a string makes \<^verbatim>\<open>in\<close> raise.
\<close>

fun create_api_mappings_loop ::
  "(string \<Rightarrow> int) \<Rightarrow> bool \<Rightarrow> timestamp \<Rightarrow> (api_call \<times> api_endpoint) list \<Rightarrow> database
   \<Rightarrow> error option \<times> database" where
  "create_api_mappings_loop h ok t [] db = (None, db)"
| "create_api_mappings_loop h ok t ((api_call, endpoint) # rest) db =
     (case ep_path endpoint of
        CStr p \<Rightarrow>
          (if str_in p (ac_endpoint api_call) \<or> str_in (ac_endpoint api_call) p
           then create_api_mappings_loop h ok t rest
                  (snd (add_api_mapping ok t (api_call_entity_id h api_call)
                          (endpoint_entity_id h endpoint) ''api_call''
                          (JObj [(''flutter_method'', JStr (ac_method api_call)),
                                 (''python_method'', JStr (ep_method endpoint)),
                                 (''endpoint'', JStr (ac_endpoint api_call)),
                                 (''confidence'', JNum ''0.8'')])
                          db))
           else create_api_mappings_loop h ok t rest db)
      | _ \<Rightarrow> (Some TypeError, db))"

definition create_api_mappings ::
  "(string \<Rightarrow> int) \<Rightarrow> bool \<Rightarrow> timestamp \<Rightarrow> flutter_results \<Rightarrow> python_results \<Rightarrow> database
   \<Rightarrow> error option \<times> database" where
  "create_api_mappings h ok t fr pr db =
     create_api_mappings_loop h ok t (call_endpoint_pairs (fr_api_calls fr) (pr_endpoints pr)) db"

text \<open>The rule of the cross-reference builder, in the words of its description.\<close>

definition spec_mapping_rule :: "api_call \<Rightarrow> api_endpoint \<Rightarrow> string \<Rightarrow> bool" where
  "spec_mapping_rule api_call endpoint p =
     ((str_in (lower (strip CHR ''/'' (ac_endpoint api_call))) (lower (strip CHR ''/'' p))
        \<or> str_in (lower (strip CHR ''/'' p)) (lower (strip CHR ''/'' (ac_endpoint api_call))))
      \<and> upper (ac_method api_call) = upper (ep_method endpoint))"

definition path_str :: "api_endpoint \<Rightarrow> string" where
  "path_str endpoint = (case ep_path endpoint of CStr p \<Rightarrow> p | _ \<Rightarrow> [])"

definition post_users_call :: api_call where
  "post_users_call =
     \<lparr>ac_type = ''dio'', ac_method = ''post'', ac_endpoint = ''/api/users'',
      ac_file_path = ''lib/api.dart'', ac_line = 20\<rparr>"

section \<open>Backend extractor (analyzers/python\_analyzer.py)\<close>

text \<open>
  The syntax tree \<^verbatim>\<open>ast.parse\<close> returns, as far as route detection reads it.
  Expressions: literal constants, names, attribute accesses, calls (positional and
  keyword arguments) and everything else.
\<close>

datatype expr =
    Constant const_value
  | Name string
  | Attribute expr string
  | Call expr "expr list" "(string \<times> expr) list"
  | OtherExpr

text \<open>
  What the helper extractors \<^verbatim>\<open>_extract_function_parameters\<close>,
  \<^verbatim>\<open>_extract_return_type\<close>, \<^verbatim>\<open>_extract_endpoint_dependencies\<close> and
  \<^verbatim>\<open>_extract_endpoint_middleware\<close> return for a function node; they read the node's
  arguments and annotations only, and the node carries their results here.
\<close>

record fn_info =
  fi_parameters :: json
  fi_return_type :: "string option"
  fi_dependencies :: "string list"
  fi_middleware :: "string list"

text \<open>
  Statements: \<^verbatim>\<open>def\<close> and \<^verbatim>\<open>async def\<close> are different node classes
  (\<^verbatim>\<open>ast.FunctionDef\<close>, \<^verbatim>\<open>ast.AsyncFunctionDef\<close>, neither a subclass of the other),
  each with name, line number, decorator list and body; a class with its body; any
  other compound statement with the statements nested in it; any other statement.
\<close>

datatype stmt =
    FunctionDef string nat "expr list" fn_info "stmt list"
  | AsyncFunctionDef string nat "expr list" fn_info "stmt list"
  | ClassDef string "stmt list"
  | Block "stmt list"
  | Stmt

fun child_stmts :: "stmt \<Rightarrow> stmt list" where
  "child_stmts (FunctionDef name lineno decorator_list info body) = body"
| "child_stmts (AsyncFunctionDef name lineno decorator_list info body) = body"
| "child_stmts (ClassDef name body) = body"
| "child_stmts (Block body) = body"
| "child_stmts Stmt = []"

text \<open>\<^verbatim>\<open>ast.walk\<close>: breadth first, from a queue of nodes still to visit.\<close>

function walk :: "stmt list \<Rightarrow> stmt list" where
  "walk [] = []"
| "walk (node # todo) = node # walk (todo @ child_stmts node)"
  by pat_completeness auto
termination
proof (relation "measure (\<lambda>todo. sum_list (map (\<lambda>n. Suc (size n)) todo))")
  show "wf (measure (\<lambda>todo. sum_list (map (\<lambda>n. Suc (size n)) todo)))" by simp
next
  fix node :: stmt and todo :: "stmt list"
  have "sum_list (map (\<lambda>n. Suc (size n)) xs) = size_list size xs" for xs :: "stmt list"
    by (induction xs) auto
  then have "sum_list (map (\<lambda>n. Suc (size n)) (child_stmts node)) < Suc (size node)"
    by (cases node) auto
  then show "(todo @ child_stmts node, node # todo)
               \<in> measure (\<lambda>todo. sum_list (map (\<lambda>n. Suc (size n)) todo))"
    by simp
qed

definition route_verbs :: "string list" where
  "route_verbs = [''get'', ''post'', ''put'', ''delete'', ''patch'']"

fun extract_path_from_decorator :: "expr \<Rightarrow> const_value" where
  "extract_path_from_decorator (Call func (Constant v # args) keywords) = v"
| "extract_path_from_decorator decorator = CStr []"

text \<open>The endpoint one decorator of a function contributes, if any.\<close>

fun decorator_endpoint :: "string \<Rightarrow> string \<Rightarrow> nat \<Rightarrow> fn_info \<Rightarrow> expr \<Rightarrow> api_endpoint list" where
  "decorator_endpoint file_path name lineno info (Call (Attribute v attr) args keywords) =
     (if attr \<in> set route_verbs
      then [\<lparr>ep_name = name, ep_method = upper attr,
             ep_path = extract_path_from_decorator (Call (Attribute v attr) args keywords),
             ep_function_name = name, ep_file_path = file_path, ep_line_number = lineno,
             ep_parameters = fi_parameters info, ep_return_type = fi_return_type info,
             ep_dependencies = fi_dependencies info, ep_middleware = fi_middleware info\<rparr>]
      else [])"
| "decorator_endpoint file_path name lineno info decorator = []"

fun node_endpoints :: "string \<Rightarrow> stmt \<Rightarrow> api_endpoint list" where
  "node_endpoints file_path (FunctionDef name lineno decorator_list info body) =
     concat (map (decorator_endpoint file_path name lineno info) decorator_list)"
| "node_endpoints file_path node = []"

text \<open>\<^verbatim>\<open>_extract_fastapi_endpoints\<close>, on the body of the module.\<close>

definition extract_fastapi_endpoints :: "stmt list \<Rightarrow> string \<Rightarrow> api_endpoint list" where
  "extract_fastapi_endpoints tree file_path = concat (map (node_endpoints file_path) (walk tree))"

text \<open>
  The first route of the repository's test of the extractor
  (tests/unit/test\_analyzers/test\_analyzers.py), a coroutine as every route handler
  of the repository is, and the same function written with a plain \<^verbatim>\<open>def\<close>.
\<close>

definition get_user_decorator :: expr where
  "get_user_decorator =
     Call (Attribute (Name ''router'') ''get'') [Constant (CStr ''/users/{user_id}'')] []"

definition get_user_info :: fn_info where
  "get_user_info =
     \<lparr>fi_parameters = JList [], fi_return_type = None, fi_dependencies = [],
      fi_middleware = []\<rparr>"

definition async_get_user :: stmt where
  "async_get_user = AsyncFunctionDef ''get_user'' 7 [get_user_decorator] get_user_info [Stmt]"

definition plain_get_user :: stmt where
  "plain_get_user = FunctionDef ''get_user'' 7 [get_user_decorator] get_user_info [Stmt]"

section \<open>Regular expressions (the part of \<^verbatim>\<open>re\<close> the UI extractor uses)\<close>

definition backslash :: char where "backslash = CHR 0x5C"
definition squote :: char where "squote = CHR 0x27"
definition dquote :: char where "dquote = CHR 0x22"
definition newline :: char where "newline = CHR 0x0A"

text \<open>The classes \<^verbatim>\<open>\s\<close> and \<^verbatim>\<open>\w\<close> on ASCII text.\<close>

definition is_space :: "char \<Rightarrow> bool" where
  "is_space c = (c \<in> set [CHR 0x09, CHR 0x0A, CHR 0x0B, CHR 0x0C, CHR 0x0D,
                          CHR 0x1C, CHR 0x1D, CHR 0x1E, CHR 0x1F, CHR 0x20])"

definition is_word :: "char \<Rightarrow> bool" where
  "is_word c =
     (c \<in> set ''abcdefghijklmnopqrstuvwxyzABCDEFGHIJKLMNOPQRSTUVWXYZ0123456789_'')"

text \<open>
  A pattern is a sequence of atoms: a literal text, one character of a class, a
  class repeated at least \<open>n\<close> times (greedy: \<^verbatim>\<open>*\<close> is \<open>n = 0\<close>, \<^verbatim>\<open>+\<close> is \<open>n = 1\<close>), and a
  mark where a capture group opens or closes.
\<close>

datatype atom = Lit string | One "char \<Rightarrow> bool" | Rep nat "char \<Rightarrow> bool" | Mark

text \<open>
  The parser of pattern texts, for the syntax the source's patterns are written in:
  characters, escapes (\<^verbatim>\<open>\s\<close>, \<^verbatim>\<open>\w\<close>, an escaped literal), sets \<^verbatim>\<open>[...]\<close> and
  \<^verbatim>\<open>[^...]\<close>, the quantifiers \<^verbatim>\<open>+\<close> and \<^verbatim>\<open>*\<close> after a character, an escape or a set,
  and groups. It reads the text once into tokens and then joins each quantifier to
  the token before it.
\<close>

datatype token = TChar char | TClass "char \<Rightarrow> bool" | TGroup | TPlus | TStar

datatype mode = Normal | Escaped | SetStart | InSet bool string | InSetEscaped bool string

definition set_class :: "bool \<Rightarrow> string \<Rightarrow> char \<Rightarrow> bool" where
  "set_class negated members c = (if negated then c \<notin> set members else c \<in> set members)"

fun tokenize :: "mode \<Rightarrow> string \<Rightarrow> token list" where
  "tokenize m [] = []"
| "tokenize Normal (c # cs) =
     (if c = backslash then tokenize Escaped cs
      else if c = CHR ''['' then tokenize SetStart cs
      else if c = CHR ''('' \<or> c = CHR '')'' then TGroup # tokenize Normal cs
      else if c = CHR ''+'' then TPlus # tokenize Normal cs
      else if c = CHR ''*'' then TStar # tokenize Normal cs
      else TChar c # tokenize Normal cs)"
| "tokenize Escaped (c # cs) =
     (if c = CHR ''s'' then TClass is_space # tokenize Normal cs
      else if c = CHR ''w'' then TClass is_word # tokenize Normal cs
      else TChar c # tokenize Normal cs)"
| "tokenize SetStart (c # cs) =
     (if c = CHR ''^'' then tokenize (InSet True []) cs
      else if c = backslash then tokenize (InSetEscaped False []) cs
      else tokenize (InSet False [c]) cs)"
| "tokenize (InSet negated members) (c # cs) =
     (if c = CHR '']'' then TClass (set_class negated members) # tokenize Normal cs
      else if c = backslash then tokenize (InSetEscaped negated members) cs
      else tokenize (InSet negated (members @ [c])) cs)"
| "tokenize (InSetEscaped negated members) (c # cs) =
     tokenize (InSet negated (members @ [c])) cs"

fun atoms :: "token list \<Rightarrow> atom list" where
  "atoms [] = []"
| "atoms (TGroup # ts) = Mark # atoms ts"
| "atoms (TChar c # TPlus # ts) = Rep 1 (\<lambda>x. x = c) # atoms ts"
| "atoms (TChar c # TStar # ts) = Rep 0 (\<lambda>x. x = c) # atoms ts"
| "atoms (TChar c # ts) = Lit [c] # atoms ts"
| "atoms (TClass p # TPlus # ts) = Rep 1 p # atoms ts"
| "atoms (TClass p # TStar # ts) = Rep 0 p # atoms ts"
| "atoms (TClass p # ts) = One p # atoms ts"
| "atoms (TPlus # ts) = atoms ts"
| "atoms (TStar # ts) = atoms ts"

definition re_compile :: "string \<Rightarrow> atom list" where
  "re_compile pattern = atoms (tokenize Normal pattern)"

text \<open>
  Matching at the start of a text, with backtracking: all the ways the pattern can
  match, the one \<^verbatim>\<open>re\<close> finds first. A way to match is the list of the positions of
  the marks and the length of the text matched.
\<close>

fun shift :: "nat \<Rightarrow> nat list \<times> nat \<Rightarrow> nat list \<times> nat" where
  "shift k (marks, e) = (map ((+) k) marks, k + e)"

fun runs :: "atom list \<Rightarrow> string \<Rightarrow> (nat list \<times> nat) list" where
  "runs [] s = [([], 0)]"
| "runs (Lit l # as) s =
     (if prefix l s then map (shift (length l)) (runs as (drop (length l) s)) else [])"
| "runs (One p # as) s =
     (case s of [] \<Rightarrow> [] | c # cs \<Rightarrow> if p c then map (shift 1) (runs as cs) else [])"
| "runs (Rep n p # as) s =
     concat (map (\<lambda>k. map (shift k) (runs as (drop k s)))
               (rev [n ..< Suc (length (takeWhile p s))]))"
| "runs (Mark # as) s = map (\<lambda>(marks, e). (0 # marks, e)) (runs as s)"

text \<open>A match object: \<^verbatim>\<open>start()\<close>, \<^verbatim>\<open>end()\<close> and the positions of the group marks.\<close>

record re_match =
  m_start :: nat
  m_end :: nat
  m_marks :: "nat list"

definition match_at :: "atom list \<Rightarrow> string \<Rightarrow> nat \<Rightarrow> re_match option" where
  "match_at pat s i =
     (case runs pat (drop i s) of
        [] \<Rightarrow> None
      | (marks, e) # _ \<Rightarrow> Some \<lparr>m_start = i, m_end = i + e, m_marks = map ((+) i) marks\<rparr>)"

text \<open>\<^verbatim>\<open>match.group(1)\<close>\<close>

definition group1 :: "string \<Rightarrow> re_match \<Rightarrow> string" where
  "group1 s m = (case m_marks m of a # b # _ \<Rightarrow> take (b - a) (drop a s) | _ \<Rightarrow> [])"

text \<open>
  \<^verbatim>\<open>re.finditer\<close>: the leftmost match from the current position, then on from its
  end (one further after an empty match).
\<close>

function finditer_from :: "atom list \<Rightarrow> string \<Rightarrow> nat \<Rightarrow> re_match list" where
  "finditer_from pat s i =
     (if length s < i then []
      else (case match_at pat s i of
              None \<Rightarrow> finditer_from pat s (Suc i)
            | Some m \<Rightarrow> m # finditer_from pat s (if m_end m \<le> i then Suc i else m_end m)))"
  by pat_completeness auto
termination
  by (relation "measure (\<lambda>(pat, s, i). Suc (length s) - i)") auto

declare finditer_from.simps [simp del]

definition finditer :: "string \<Rightarrow> string \<Rightarrow> re_match list" where
  "finditer pattern s = finditer_from (re_compile pattern) s 0"

text \<open>\<^verbatim>\<open>content[:i].count('\n') + 1\<close>\<close>

definition line_of :: "string \<Rightarrow> nat \<Rightarrow> nat" where
  "line_of content i = count_list (take i content) newline + 1"

section \<open>UI extractor (analyzers/flutter\_analyzer.py)\<close>

text \<open>\<^verbatim>\<open>s.split(sep)\<close> for a one-character separator, and \<^verbatim>\<open>content[start:end]\<close>.\<close>

fun split_on :: "char \<Rightarrow> string \<Rightarrow> string list" where
  "split_on sep [] = [[]]"
| "split_on sep (c # cs) =
     (if c = sep then [] # split_on sep cs
      else (case split_on sep cs of [] \<Rightarrow> [[c]] | part # parts \<Rightarrow> (c # part) # parts))"

definition slice :: "string \<Rightarrow> nat \<Rightarrow> nat \<Rightarrow> string" where
  "slice content start end' = take (end' - start) (drop start content)"

text \<open>The pattern texts of \<^verbatim>\<open>_extract_api_calls\<close>, one per verb.\<close>

definition quote_set :: string where
  "quote_set = ''['' @ [backslash, squote, dquote] @ '']''"

definition no_quote_set :: string where
  "no_quote_set = ''[^'' @ [backslash, squote, dquote] @ '']''"

definition dio_pattern :: "string \<Rightarrow> string" where
  "dio_pattern verb =
     ''dio'' @ [backslash] @ ''.'' @ verb @ [backslash] @ ''('' @ quote_set
       @ ''('' @ no_quote_set @ ''+)'' @ quote_set"

definition http_pattern :: "string \<Rightarrow> string" where
  "http_pattern verb =
     ''http'' @ [backslash] @ ''.'' @ verb @ [backslash] @ ''(Uri'' @ [backslash] @ ''.parse''
       @ [backslash] @ ''('' @ quote_set @ ''('' @ no_quote_set @ ''+)'' @ quote_set"

definition dio_patterns :: "string list" where
  "dio_patterns = [dio_pattern ''get'', dio_pattern ''post'', dio_pattern ''put'',
                   dio_pattern ''delete'']"

definition http_patterns :: "string list" where
  "http_patterns = [http_pattern ''get'', http_pattern ''post'']"

text \<open>\<^verbatim>\<open>pattern.split('\\')[1].split('(')[0]\<close>, the value stored under \<^verbatim>\<open>'method'\<close>.\<close>

definition pattern_method :: "string \<Rightarrow> string" where
  "pattern_method pattern = hd (split_on CHR ''('' (split_on backslash pattern ! 1))"

definition pattern_calls :: "string \<Rightarrow> string \<Rightarrow> string \<Rightarrow> string \<Rightarrow> api_call list" where
  "pattern_calls kind content file_path pattern =
     map (\<lambda>m. \<lparr>ac_type = kind, ac_method = pattern_method pattern,
                ac_endpoint = group1 content m, ac_file_path = file_path,
                ac_line = line_of content (m_start m)\<rparr>)
       (finditer pattern content)"

definition extract_api_calls :: "string \<Rightarrow> string \<Rightarrow> api_call list" where
  "extract_api_calls content file_path =
     concat (map (pattern_calls ''dio'' content file_path) dio_patterns)
     @ concat (map (pattern_calls ''http'' content file_path) http_patterns)"

text \<open>
  \<^verbatim>\<open>_find_class_end\<close>: the scan over \<^verbatim>\<open>content[start_pos:]\<close> with the index \<open>i\<close>, the
  brace count and the flag \<open>in_class\<close>; it yields the index of the closing brace.
\<close>

fun class_end_scan :: "string \<Rightarrow> nat \<Rightarrow> int \<Rightarrow> bool \<Rightarrow> nat option" where
  "class_end_scan [] i brace_count in_class = None"
| "class_end_scan (c # cs) i brace_count in_class =
     (if c = CHR ''{'' then class_end_scan cs (Suc i) (brace_count + 1) True
      else if c = CHR ''}'' then
        (if in_class \<and> brace_count - 1 = 0 then Some i
         else class_end_scan cs (Suc i) (brace_count - 1) in_class)
      else class_end_scan cs (Suc i) brace_count in_class)"

definition find_class_end :: "string \<Rightarrow> nat \<Rightarrow> nat" where
  "find_class_end content start_pos =
     (case class_end_scan (drop start_pos content) start_pos 0 False of
        Some i \<Rightarrow> count_list (take i content) newline + 1
      | None \<Rightarrow> count_list content newline + 1)"

text \<open>\<^verbatim>\<open>str.istitle\<close> on ASCII text.\<close>

definition is_upper :: "char \<Rightarrow> bool" where
  "is_upper c = (c \<in> set ''ABCDEFGHIJKLMNOPQRSTUVWXYZ'')"

definition is_lower :: "char \<Rightarrow> bool" where
  "is_lower c = (c \<in> set ''abcdefghijklmnopqrstuvwxyz'')"

fun istitle_scan :: "bool \<Rightarrow> bool \<Rightarrow> string \<Rightarrow> bool" where
  "istitle_scan previous_is_cased cased [] = cased"
| "istitle_scan previous_is_cased cased (c # cs) =
     (if is_upper c then (if previous_is_cased then False else istitle_scan True True cs)
      else if is_lower c then (if \<not> previous_is_cased then False else istitle_scan True True cs)
      else istitle_scan False cased cs)"

definition istitle :: "string \<Rightarrow> bool" where
  "istitle s = istitle_scan False False s"

text \<open>
  The five lists a widget record carries, each read from \<^verbatim>\<open>content[start:end]\<close>.
  \<^verbatim>\<open>list(set(xs))\<close> keeps one copy of each element, in an order Python does not
  fix; here the order of first occurrence.
\<close>

definition groups_of :: "string \<Rightarrow> string \<Rightarrow> string list" where
  "groups_of text pattern = map (group1 text) (finditer pattern text)"

definition extract_widget_dependencies :: "string \<Rightarrow> nat \<Rightarrow> nat \<Rightarrow> string list" where
  "extract_widget_dependencies content start end' =
     (let widget_content = slice content start end';
          widget_patterns =
            [''('' @ [backslash] @ ''w+)'' @ [backslash] @ ''('',
             ''('' @ [backslash] @ ''w+)'' @ [backslash] @ ''.of'' @ [backslash] @ ''(context''
               @ [backslash] @ '')'']
      in remdups
           (filter (\<lambda>dep. dep \<notin> set [''if'', ''for'', ''while'', ''return''] \<and> istitle dep)
              (concat (map (groups_of widget_content) widget_patterns))))"

definition extract_widget_api_calls :: "string \<Rightarrow> nat \<Rightarrow> nat \<Rightarrow> string list" where
  "extract_widget_api_calls content start end' =
     (let widget_content = slice content start end';
          patterns =
            [''dio'' @ [backslash] @ ''.('' @ [backslash] @ ''w+)'' @ [backslash] @ ''('',
             ''http'' @ [backslash] @ ''.('' @ [backslash] @ ''w+)'' @ [backslash] @ ''('',
             ''ApiClient'' @ [backslash] @ ''.('' @ [backslash] @ ''w+)'' @ [backslash] @ ''('']
      in remdups (concat (map (groups_of widget_content) patterns)))"

definition extract_widget_navigation :: "string \<Rightarrow> nat \<Rightarrow> nat \<Rightarrow> string list" where
  "extract_widget_navigation content start end' =
     (let widget_content = slice content start end';
          nav_patterns =
            [''Navigator'' @ [backslash] @ ''.push'' @ [backslash] @ ''w*'' @ [backslash]
               @ ''([^,]+,'' @ [backslash] @ ''s*'' @ quote_set @ ''('' @ no_quote_set @ ''+)''
               @ quote_set,
             ''context'' @ [backslash] @ ''.go'' @ [backslash] @ ''('' @ quote_set
               @ ''('' @ no_quote_set @ ''+)'' @ quote_set]
      in concat (map (groups_of widget_content) nav_patterns))"

definition extract_form_fields :: "string \<Rightarrow> nat \<Rightarrow> nat \<Rightarrow> string list" where
  "extract_form_fields content start end' =
     (let widget_content = slice content start end';
          field_patterns =
            [''TextFormField'' @ [backslash] @ ''('',
             ''DropdownButtonFormField'' @ [backslash] @ ''('',
             ''CheckboxFormField'' @ [backslash] @ ''('',
             ''RadioFormField'' @ [backslash] @ ''('']
      in concat (map (\<lambda>pattern. map (\<lambda>m. hd (split_on CHR ''('' pattern))
                                    (finditer pattern widget_content))
                   field_patterns))"

definition extract_widget_validators :: "string \<Rightarrow> nat \<Rightarrow> nat \<Rightarrow> string list" where
  "extract_widget_validators content start end' =
     (let widget_content = slice content start end';
          validator_patterns =
            [''Validators'' @ [backslash] @ ''.('' @ [backslash] @ ''w+)'',
             ''validator:'' @ [backslash] @ ''s*('' @ [backslash] @ ''w+)'']
      in remdups (concat (map (groups_of widget_content) validator_patterns)))"

text \<open>The two class-declaration patterns of \<^verbatim>\<open>_extract_widgets\<close>.\<close>

definition widget_pattern :: "string \<Rightarrow> string" where
  "widget_pattern base =
     ''class'' @ [backslash] @ ''s+('' @ [backslash] @ ''w+)'' @ [backslash] @ ''s+extends''
       @ [backslash] @ ''s+'' @ base @ [backslash] @ ''s*'' @ [backslash] @ ''{''"

definition stateless_pattern :: string where
  "stateless_pattern = widget_pattern ''StatelessWidget''"

definition stateful_pattern :: string where
  "stateful_pattern = widget_pattern ''StatefulWidget''"

definition widget_of :: "string \<Rightarrow> string \<Rightarrow> string \<Rightarrow> re_match \<Rightarrow> flutter_widget" where
  "widget_of content file_path kind m =
     \<lparr>fw_name = group1 content m, fw_type = kind, fw_file_path = file_path,
      fw_line_start = line_of content (m_start m),
      fw_line_end = find_class_end content (m_start m),
      fw_dependencies = extract_widget_dependencies content (m_start m) (m_end m),
      fw_api_calls = extract_widget_api_calls content (m_start m) (m_end m),
      fw_navigation_routes = extract_widget_navigation content (m_start m) (m_end m),
      fw_form_fields = extract_form_fields content (m_start m) (m_end m),
      fw_validators = extract_widget_validators content (m_start m) (m_end m)\<rparr>"

definition extract_widgets :: "string \<Rightarrow> string \<Rightarrow> flutter_widget list" where
  "extract_widgets content file_path =
     map (widget_of content file_path ''StatelessWidget'') (finditer stateless_pattern content)
     @ map (widget_of content file_path ''StatefulWidget'') (finditer stateful_pattern content)"

text \<open>
  Two of the calls in the source text of the repository's test of
  \<^verbatim>\<open>_extract_api_calls\<close> (tests/unit/test\_analyzers/test\_analyzers.py).
\<close>

definition test_api_source :: string where
  "test_api_source =
     ''await dio.post('' @ [squote] @ ''/api/v1/auth/login'' @ [squote] @ '');'' @ [newline]
     @ ''await http.get(Uri.parse('' @ [squote] @ ''/api/v1/data'' @ [squote] @ ''));''"

text \<open>
  The end of a declaration in the words of its description: the brace depth is
  counted from the first opening brace at or after the start of the match, and the
  scope ends where the depth first returns to zero; when it never does, the scope
  ends at the end of the file.
\<close>

definition brace_depth :: "string \<Rightarrow> nat \<Rightarrow> nat \<Rightarrow> int" where
  "brace_depth content j i =
     int (count_list (slice content j (Suc i)) CHR ''{'')
     - int (count_list (slice content j (Suc i)) CHR ''}'')"

definition first_open_brace :: "string \<Rightarrow> nat \<Rightarrow> nat option" where
  "first_open_brace content start =
     find (\<lambda>j. content ! j = CHR ''{'') [start ..< length content]"

definition balanced_close :: "string \<Rightarrow> nat \<Rightarrow> nat option" where
  "balanced_close content start =
     (case first_open_brace content start of
        None \<Rightarrow> None
      | Some j \<Rightarrow> find (\<lambda>i. brace_depth content j i = 0) [j ..< length content])"

definition spec_end_line :: "string \<Rightarrow> nat \<Rightarrow> nat" where
  "spec_end_line content start =
     (case balanced_close content start of
        Some i \<Rightarrow> line_of content i
      | None \<Rightarrow> line_of content (length content))"

text \<open>The characters an atom of a pattern can match.\<close>

fun atom_accepts :: "atom \<Rightarrow> char \<Rightarrow> bool" where
  "atom_accepts (Lit l) c = (c \<in> set l)"
| "atom_accepts (One p) c = p c"
| "atom_accepts (Rep n p) c = p c"
| "atom_accepts Mark c = False"

definition is_brace :: "char \<Rightarrow> bool" where
  "is_brace c = (c = CHR ''{'' \<or> c = CHR ''}'')"

text \<open>The atoms of a class-declaration pattern before its final opening brace.\<close>

definition widget_header :: "string \<Rightarrow> atom list" where
  "widget_header base =
     map (\<lambda>c. Lit [c]) ''class'' @ [Rep 1 is_space, Mark, Rep 1 is_word, Mark, Rep 1 is_space]
     @ map (\<lambda>c. Lit [c]) ''extends'' @ [Rep 1 is_space] @ map (\<lambda>c. Lit [c]) base
     @ [Rep 0 is_space]"

text \<open>
  The text of a class declaration: the keyword, the name \<open>n\<close>, the base class and the
  opening brace, separated by the white space \<open>w1\<close> to \<open>w4\<close>.
\<close>

definition decl_text :: "string \<Rightarrow> string \<Rightarrow> string \<Rightarrow> string \<Rightarrow> string \<Rightarrow> string \<Rightarrow> string" where
  "decl_text base w1 n w2 w3 w4 =
     ''class'' @ w1 @ n @ w2 @ ''extends'' @ w3 @ base @ w4 @ ''{''"

definition well_formed_decl :: "string \<Rightarrow> string \<Rightarrow> string \<Rightarrow> string \<Rightarrow> string \<Rightarrow> bool" where
  "well_formed_decl w1 n w2 w3 w4 =
     (w1 \<noteq> [] \<and> list_all is_space w1 \<and> n \<noteq> [] \<and> list_all is_word n
      \<and> w2 \<noteq> [] \<and> list_all is_space w2 \<and> w3 \<noteq> [] \<and> list_all is_space w3
      \<and> list_all is_space w4)"

text \<open>
  The declarations \<^verbatim>\<open>_extract_widgets\<close> finds, each with its kind, in the order of the
  records: the matches of the first loop, then those of the second.
\<close>

definition widget_matches :: "string \<Rightarrow> (string \<times> re_match) list" where
  "widget_matches content =
     map (Pair ''StatelessWidget'') (finditer stateless_pattern content)
     @ map (Pair ''StatefulWidget'') (finditer stateful_pattern content)"

text \<open>A declaration of the given kind starts at position \<open>k\<close> of the text.\<close>

definition declaration_at :: "string \<Rightarrow> string \<Rightarrow> nat \<Rightarrow> re_match option" where
  "declaration_at kind content k = match_at (re_compile (widget_pattern kind)) content k"

definition widget_kinds :: "string list" where
  "widget_kinds = [''StatelessWidget'', ''StatefulWidget'']"

text \<open>
  A source text with a stateless component whose braces balance and a stateful one
  whose braces do not.
\<close>

definition sample_dart :: string where
  "sample_dart =
     ''class Home extends StatelessWidget {'' @ [newline] @
     ''  build() { }'' @ [newline] @
     ''}'' @ [newline] @
     ''class Login extends StatefulWidget{'' @ [newline] @
     '' {'' @ [newline]"

section \<open>Properties of the gap reporter\<close>

lemma find_match_None:
  "find_match eps (contract_path c) (contract_method c) = None \<longleftrightarrow> \<not> has_backend_match eps c"
  by (auto simp add: find_match_def has_backend_match_def find_None_iff list_ex_iff)


lemma no_match_not_match: "\<not> has_backend_match eps c \<Longrightarrow> not_match eps c"
  using find_match_None[of eps c] by (simp add: not_match_def falsy_def)


lemma fold_contract_step:
  "fold (contract_step eps idx calls) cs (m, n, mm) =
     (m @ map missing_of [c\<leftarrow>cs. not_match eps c \<and> idx (normalize_path (contract_path c)) = None],
      n @ map not_used_of [c\<leftarrow>cs. \<not> flutter_used calls (contract_path c)],
      mm @ map (mismatch_of idx) [c\<leftarrow>cs. not_match eps c \<and> idx (normalize_path (contract_path c)) \<noteq> None])"
proof (induction cs arbitrary: m n mm)
  case Nil
  then show ?case by simp
next
  case (Cons c cs)
  have step: "contract_step eps idx calls c (m, n, mm) =
     (if not_match eps c \<and> idx (normalize_path (contract_path c)) = None then m @ [missing_of c] else m,
      if \<not> flutter_used calls (contract_path c) then n @ [not_used_of c] else n,
      if not_match eps c \<and> idx (normalize_path (contract_path c)) \<noteq> None then mm @ [mismatch_of idx c] else mm)"
    by (auto simp: contract_step_def Let_def missing_of_def not_used_of_def mismatch_of_def
          not_match_def contract_path_def contract_method_def split: option.splits)
  show ?case
    by (simp only: fold_Cons comp_apply step Cons.IH) auto
qed

lemma fold_index_add:
  "fold index_add eps idx k =
     (if \<exists>ep\<in>set eps. normalize_path (get ep ''path'') = k
      then Some ((case idx k of None \<Rightarrow> {} | Some s \<Rightarrow> s) \<union>
                 {upper (get ep ''method'') | ep. ep \<in> set eps \<and> normalize_path (get ep ''path'') = k})
      else idx k)"
proof (induction eps arbitrary: idx)
  case Nil
  then show ?case by simp
next
  case (Cons e eps)
  show ?case
    by (simp only: fold_Cons comp_apply Cons.IH) (auto simp: index_add_def Let_def split: option.splits)
qed

lemma backend_by_path_eq:
  "backend_by_path eps k =
     (if \<exists>ep\<in>set eps. normalize_path (get ep ''path'') = k
      then Some {upper (get ep ''method'') | ep. ep \<in> set eps \<and> normalize_path (get ep ''path'') = k}
      else None)"
  by (simp add: backend_by_path_def fold_index_add)

lemma gap_report_lists:
  "missing_backend_endpoints (compute_gap_report cs eps calls) =
      map missing_of [c\<leftarrow>cs. not_match eps c \<and> backend_by_path eps (normalize_path (contract_path c)) = None]"
  "method_mismatches (compute_gap_report cs eps calls) =
      map (mismatch_of (backend_by_path eps)) [c\<leftarrow>cs. not_match eps c \<and> backend_by_path eps (normalize_path (contract_path c)) \<noteq> None]"
  "contracts_not_used_in_flutter (compute_gap_report cs eps calls) =
      map not_used_of [c\<leftarrow>cs. \<not> flutter_used calls (contract_path c)]"
  by (simp_all add: compute_gap_report_def Let_def fold_contract_step)

lemma not_match_cong:
  "contract_path c' = contract_path c \<Longrightarrow> contract_method c' = contract_method c \<Longrightarrow>
   not_match eps c' = not_match eps c"
  by (simp add: not_match_def)

lemma in_missing_iff:
  "c \<in> set cs \<Longrightarrow>
   in_missing (compute_gap_report cs eps calls) c \<longleftrightarrow>
     not_match eps c \<and> backend_by_path eps (normalize_path (contract_path c)) = None"
  by (auto simp: in_missing_def gap_report_lists list_ex_iff missing_of_def
        dest: not_match_cong)

lemma in_mismatches_iff:
  "c \<in> set cs \<Longrightarrow>
   in_mismatches (compute_gap_report cs eps calls) c \<longleftrightarrow>
     not_match eps c \<and> backend_by_path eps (normalize_path (contract_path c)) \<noteq> None"
  by (auto simp: in_mismatches_def gap_report_lists list_ex_iff mismatch_of_def
        dest: not_match_cong)

lemma in_not_used_iff:
  "c \<in> set cs \<Longrightarrow>
   in_not_used (compute_gap_report cs eps calls) c \<longleftrightarrow> \<not> flutter_used calls (contract_path c)"
  by (auto simp: in_not_used_def gap_report_lists list_ex_iff not_used_of_def)


lemma str_in_Nil [simp]: "str_in [] b"
  by (induction b) auto

lemma strip_only: "set p \<subseteq> {c} \<Longrightarrow> strip c p = []"
proof -
  assume "set p \<subseteq> {c}"
  then have d: "dropWhile (\<lambda>x. x = c) p = []" by (induction p) auto
  show ?thesis unfolding strip_def d by simp
qed

lemma normalize_path_Nil [simp]: "normalize_path [] = []"
  by (simp add: normalize_path_def strip_def lower_def)

lemma methods_at_eq:
  "same_path_eps eps c \<noteq> [] \<Longrightarrow>
   sorted_list_of_set (the (backend_by_path eps (normalize_path (contract_path c)))) = methods_at eps c"
proof -
  assume a: "same_path_eps eps c \<noteq> []"
  then have ex: "\<exists>ep\<in>set eps. normalize_path (get ep ''path'') = normalize_path (contract_path c)"
    by (auto simp: same_path_eps_def filter_empty_conv)
  have "{upper (get ep ''method'') | ep. ep \<in> set eps \<and>
          normalize_path (get ep ''path'') = normalize_path (contract_path c)}
        = set (map (\<lambda>ep. upper (get ep ''method'')) (same_path_eps eps c))"
    by (auto simp: same_path_eps_def)
  with ex show ?thesis
    by (simp add: backend_by_path_eq methods_at_def)
qed

lemma by_path_None_iff:
  "backend_by_path eps (normalize_path (contract_path c)) = None \<longleftrightarrow> same_path_eps eps c = []"
  by (auto simp: backend_by_path_eq same_path_eps_def filter_empty_conv)

text \<open>The assertions of the repository's unit test hold of the model.\<close>

lemma compute_gap_report_unit_test:
  "map (\<lambda>e. (ge_path e, ge_method e))
      (missing_backend_endpoints
        (compute_gap_report test_contracts test_backend_endpoints test_flutter_calls))
     = [(''/v1/baz'', ''PUT'')]"
  "map (\<lambda>e. (ge_path e, ge_method e))
      (backend_without_contract
        (compute_gap_report test_contracts test_backend_endpoints test_flutter_calls))
     = [(''/v1/bar'', ''GET''), (''/v1/qux'', ''DELETE'')]"
  "map ge_path
      (contracts_not_used_in_flutter
        (compute_gap_report test_contracts test_backend_endpoints test_flutter_calls))
     = [''/v1/bar'', ''/v1/baz'']"
  "map (\<lambda>e. (mm_path e, mm_backend_methods e))
      (method_mismatches
        (compute_gap_report test_contracts test_backend_endpoints test_flutter_calls))
     = [(''/v1/bar'', [''GET''])]"
  by code_simp+

text \<open>
  A contract whose first matching route is false (an empty dictionary) has a backend
  match and is reported in one of the two gap lists all the same.
\<close>

lemma falsy_match_in_gap_list:
  assumes "c \<in> set cs"
    and "find_match eps (contract_path c) (contract_method c) = Some ep" and "\<not> truthy ep"
  shows "has_backend_match eps c
         \<and> (in_missing (compute_gap_report cs eps calls) c
              \<or> in_mismatches (compute_gap_report cs eps calls) c)"
proof -
  from assms(2) have "has_backend_match eps c"
    using find_match_None[of eps c] by simp
  moreover from assms(2,3) have "not_match eps c"
    by (simp add: not_match_def falsy_def)
  ultimately show ?thesis
    using assms(1) by (auto simp: in_missing_iff in_mismatches_iff)
qed




text \<open>
  Claim C2, as amended. The mismatch category is decided by a lookup of the
  contract's normalized path in the index of backend paths, that is by equality of
  normalized paths: when some backend route has the same normalized path as the
  contract and no backend route matches on both path (substring rule) and method,
  the report has a \<open>method_mismatches\<close> entry for the contract, carrying the sorted
  verbs of the routes at that normalized path, and no \<open>missing_backend_endpoints\<close>
  entry for it.
\<close>

theorem method_mismatch_on_equal_path:
  assumes "c \<in> set cs" and "same_path_eps eps c \<noteq> []" and "\<not> has_backend_match eps c"
  shows "\<lparr>mm_path = contract_path c, mm_contract_method = contract_method c,
          mm_backend_methods = methods_at eps c,
          mm_reason = ''Method differs between contract and backend''\<rparr>
           \<in> set (method_mismatches (compute_gap_report cs eps calls))
         \<and> \<not> in_missing (compute_gap_report cs eps calls) c"
proof -
  from assms(2) have idx: "backend_by_path eps (normalize_path (contract_path c)) \<noteq> None"
    by (simp add: by_path_None_iff)
  have "mismatch_of (backend_by_path eps) c \<in> set (method_mismatches (compute_gap_report cs eps calls))"
    using assms(1) no_match_not_match[OF assms(3)] idx by (simp add: gap_report_lists)
  moreover have "mismatch_of (backend_by_path eps) c =
      \<lparr>mm_path = contract_path c, mm_contract_method = contract_method c,
          mm_backend_methods = methods_at eps c,
          mm_reason = ''Method differs between contract and backend''\<rparr>"
    using methods_at_eq[OF assms(2)] by (simp add: mismatch_of_def)
  moreover have "\<not> in_missing (compute_gap_report cs eps calls) c"
    using assms(1) idx by (simp add: in_missing_iff)
  ultimately show ?thesis by simp
qed

theorem method_mismatch_on_equal_path_witness:
  "contract_of ''/v1/bar'' ''POST'' \<in> set test_contracts
   \<and> same_path_eps test_backend_endpoints (contract_of ''/v1/bar'' ''POST'') \<noteq> []
   \<and> \<not> has_backend_match test_backend_endpoints (contract_of ''/v1/bar'' ''POST'')
   \<and> \<lparr>mm_path = ''/v1/bar'', mm_contract_method = ''POST'', mm_backend_methods = [''GET''],
        mm_reason = ''Method differs between contract and backend''\<rparr>
         \<in> set (method_mismatches
                 (compute_gap_report test_contracts test_backend_endpoints test_flutter_calls))
   \<and> \<not> in_missing (compute_gap_report test_contracts test_backend_endpoints test_flutter_calls)
          (contract_of ''/v1/bar'' ''POST'')"
proof -
  have m: "contract_of ''/v1/bar'' ''POST'' \<in> set test_contracts"
    by (simp add: test_contracts_def)
  have s: "same_path_eps test_backend_endpoints (contract_of ''/v1/bar'' ''POST'') \<noteq> []"
    by code_simp
  have n: "\<not> has_backend_match test_backend_endpoints (contract_of ''/v1/bar'' ''POST'')"
    by code_simp
  have p: "contract_path (contract_of ''/v1/bar'' ''POST'') = ''/v1/bar''"
    by code_simp
  have c: "contract_method (contract_of ''/v1/bar'' ''POST'') = ''POST''"
    by code_simp
  have a: "methods_at test_backend_endpoints (contract_of ''/v1/bar'' ''POST'') = [''GET'']"
    by code_simp
  from method_mismatch_on_equal_path[OF m s n, of test_flutter_calls] m s n
  show ?thesis by (simp only: p c a simp_thms)
qed

text \<open>
  A contract /v1/foo with verb POST against the single backend route GET /api/v1/foo:
  the paths match under the substring rule and no route matches on path and method,
  yet no mismatch is reported and the contract is listed as missing.
\<close>

theorem method_mismatch_counterexample:
  "paths_match ''/v1/foo'' ''/api/v1/foo''
   \<and> \<not> has_backend_match [endpoint_of ''/api/v1/foo'' ''GET''] (contract_of ''/v1/foo'' ''POST'')
   \<and> method_mismatches
        (compute_gap_report [contract_of ''/v1/foo'' ''POST''] [endpoint_of ''/api/v1/foo'' ''GET''] [])
       = []
   \<and> missing_backend_endpoints
        (compute_gap_report [contract_of ''/v1/foo'' ''POST''] [endpoint_of ''/api/v1/foo'' ''GET''] [])
       = [\<lparr>ge_path = ''/v1/foo'', ge_method = ''POST'',
           ge_reason = ''No matching FastAPI endpoint''\<rparr>]"
  by code_simp

text \<open>
  With no route at the contract's own normalized path and no match on path and
  method, the contract is reported missing, whatever the substring rule says.
\<close>

lemma substring_only_is_missing:
  assumes "c \<in> set cs" and "same_path_eps eps c = []" and "\<not> has_backend_match eps c"
  shows "in_missing (compute_gap_report cs eps calls) c
         \<and> \<not> in_mismatches (compute_gap_report cs eps calls) c"
  using assms no_match_not_match[of eps c]
  by (simp add: in_missing_iff in_mismatches_iff by_path_None_iff)

text \<open>
  Claim C10. The path-matching predicate accepts the pairs \<open>("", p)\<close> and \<open>(p, "")\<close>
  for every path \<open>p\<close>; a path made of separators only normalizes to the empty string
  and so matches every path; hence a contract whose path is empty, missing or made of
  separators only counts as used as soon as there is one UI call record, and gets no
  \<open>contracts_not_used_in_flutter\<close> entry.
\<close>

theorem empty_path_matches_everything:
  "paths_match [] p \<and> paths_match p []
   \<and> (set p \<subseteq> {CHR ''/''} \<longrightarrow> normalize_path p = [] \<and> paths_match p q \<and> paths_match q p)
   \<and> (c \<in> set cs \<and> set (contract_path c) \<subseteq> {CHR ''/''} \<and> calls \<noteq> []
        \<longrightarrow> flutter_used calls (contract_path c)
            \<and> \<not> in_not_used (compute_gap_report cs eps calls) c)"
proof -
  have n: "normalize_path x = []" if "set x \<subseteq> {CHR ''/''}" for x
    using that by (simp add: normalize_path_def strip_only lower_def)
  have m: "paths_match x y" "paths_match y x" if "normalize_path x = []" for x y
    using that by (simp_all add: paths_match_def Let_def)
  have u: "flutter_used calls x" if "normalize_path x = []" "calls \<noteq> []" for x
    using that m(1)[of x] by (cases calls) (simp_all add: flutter_used_def)
  show ?thesis
    using n m u by (auto simp: in_not_used_iff)
qed

theorem empty_path_matches_everything_witness:
  "set ''//'' \<subseteq> {CHR ''/''}
   \<and> normalize_path ''//'' = [] \<and> paths_match ''//'' ''/v1/foo'' \<and> paths_match ''/v1/foo'' ''//''
   \<and> \<lparr>metadata = Some [''method'' \<mapsto> ''GET''], meta = None\<rparr>
        \<in> set [\<lparr>metadata = Some [''method'' \<mapsto> ''GET''], meta = None\<rparr>]
   \<and> set (contract_path \<lparr>metadata = Some [''method'' \<mapsto> ''GET''], meta = None\<rparr>) \<subseteq> {CHR ''/''}
   \<and> test_flutter_calls \<noteq> []
   \<and> flutter_used test_flutter_calls
        (contract_path \<lparr>metadata = Some [''method'' \<mapsto> ''GET''], meta = None\<rparr>)
   \<and> \<not> in_not_used
          (compute_gap_report [\<lparr>metadata = Some [''method'' \<mapsto> ''GET''], meta = None\<rparr>]
             test_backend_endpoints test_flutter_calls)
          \<lparr>metadata = Some [''method'' \<mapsto> ''GET''], meta = None\<rparr>"
proof -
  have a: "set ''//'' \<subseteq> {CHR ''/''}" by simp
  have b: "set (contract_path \<lparr>metadata = Some [''method'' \<mapsto> ''GET''], meta = None\<rparr>)
             \<subseteq> {CHR ''/''}"
    by (simp add: contract_path_def contract_meta_def get_attr_def)
  have c: "test_flutter_calls \<noteq> []" by (simp add: test_flutter_calls_def)
  from empty_path_matches_everything[of "''//''" "''/v1/foo''"
         "\<lparr>metadata = Some [''method'' \<mapsto> ''GET''], meta = None\<rparr>"
         "[\<lparr>metadata = Some [''method'' \<mapsto> ''GET''], meta = None\<rparr>]"
         test_flutter_calls test_backend_endpoints] a b c
  show ?thesis by simp
qed

section \<open>Properties of the store\<close>

lemma keys_insert_or_replace:
  "set (map key (insert_or_replace key row table)) = insert (key row) (set (map key table))"
  by (auto simp: insert_or_replace_def)

lemma distinct_insert_or_replace:
  "distinct (map key table) \<Longrightarrow> distinct (map key (insert_or_replace key row table))"
  by (auto simp: insert_or_replace_def distinct_map_filter)

lemma one_row_after_replace:
  "filter (\<lambda>r. key r = key row) (insert_or_replace key row table) = [row]"
  by (simp add: insert_or_replace_def filter_empty_conv)

lemma other_rows_kept:
  "k \<noteq> key row \<Longrightarrow>
   filter (\<lambda>r. key r = k) (insert_or_replace key row table) = filter (\<lambda>r. key r = k) table"
  by (induction table) (auto simp: insert_or_replace_def)

lemma add_entity_ids:
  "set (entity_ids (snd (add_entity True t e db))) = insert (ce_id e) (set (entity_ids db))"
  by (simp add: add_entity_def entity_ids_def keys_insert_or_replace del: set_map)

lemma add_entity_distinct:
  "distinct (entity_ids db) \<Longrightarrow> distinct (entity_ids (snd (add_entity ok t e db)))"
  by (simp add: add_entity_def entity_ids_def distinct_insert_or_replace)

lemma store_entities_ids:
  "set (entity_ids (store_entities True t es db)) = set (map ce_id es) \<union> set (entity_ids db)"
  unfolding store_entities_def
proof (induction es arbitrary: db)
  case Nil
  then show ?case by simp
next
  case (Cons e es)
  show ?case by (simp only: fold_Cons comp_apply Cons.IH add_entity_ids) auto
qed

lemma store_entities_distinct:
  "distinct (entity_ids db) \<Longrightarrow> distinct (entity_ids (store_entities ok t es db))"
  unfolding store_entities_def
  by (induction es arbitrary: db) (simp_all add: add_entity_distinct)

lemma store_analysis_results_ids:
  "set (entity_ids (store_analysis_results h True t fr pr db)) = run_ids h fr pr \<union> set (entity_ids db)"
  by (auto simp: store_analysis_results_def Let_def store_entities_ids run_ids_def
        widget_entity_def endpoint_entity_def model_entity_def)

lemma store_analysis_results_distinct:
  "distinct (entity_ids db) \<Longrightarrow> distinct (entity_ids (store_analysis_results h ok t fr pr db))"
  by (simp add: store_analysis_results_def Let_def store_entities_distinct)

lemma entity_count:
  "distinct (entity_ids db) \<Longrightarrow> length (code_entities db) = card (set (entity_ids db))"
  by (metis distinct_card entity_ids_def length_map)

text \<open>
  Within one process (one hash function) a second run over the same results replaces
  the rows of the first: the number of entities does not change.
\<close>

lemma rerun_same_process:
  assumes "distinct (entity_ids db)"
  shows "length (code_entities (store_analysis_results h True t2 fr pr
                                  (store_analysis_results h True t1 fr pr db)))
         = length (code_entities (store_analysis_results h True t1 fr pr db))"
proof -
  let ?db1 = "store_analysis_results h True t1 fr pr db"
  let ?db2 = "store_analysis_results h True t2 fr pr ?db1"
  have d1: "distinct (entity_ids ?db1)" using assms by (rule store_analysis_results_distinct)
  then have d2: "distinct (entity_ids ?db2)" by (rule store_analysis_results_distinct)
  have "set (entity_ids ?db2) = set (entity_ids ?db1)"
    by (auto simp: store_analysis_results_ids)
  with d1 d2 show ?thesis by (simp add: entity_count)
qed


lemma entity_ids_differ:
  "api_call_entity_id h c \<noteq> endpoint_entity_id h' e"
  by (simp add: api_call_entity_id_def endpoint_entity_id_def)

lemma add_relationship_self_edge:
  assumes "no_self_edge db"
  shows "no_self_edge (snd (add_relationship True t r db))
           \<longleftrightarrow> rel_source_entity_id r \<noteq> rel_target_entity_id r"
  using assms
  by (auto simp: no_self_edge_def add_relationship_def insert_or_replace_def list_all_iff)

lemma add_relationship_keeps_no_self_edge:
  assumes "no_self_edge db" and "rel_source_entity_id r \<noteq> rel_target_entity_id r"
  shows "no_self_edge (snd (add_relationship ok t r db))"
  using assms
  by (auto simp: no_self_edge_def add_relationship_def insert_or_replace_def list_all_iff)

lemma cross_references_loop_no_self_edge:
  "no_self_edge db \<Longrightarrow> no_self_edge (snd (cross_references_loop h ok t ps db))"
proof (induction ps arbitrary: db)
  case Nil
  then show ?case by simp
next
  case (Cons p ps)
  obtain c e where p: "p = (c, e)" by (cases p)
  have "no_self_edge (snd (add_relationship ok t (cross_reference h t c e) db))"
    using Cons.prems
    by (rule add_relationship_keeps_no_self_edge) (simp add: cross_reference_def entity_ids_differ)
  with Cons show ?case
    by (simp add: p split: const_value.splits)
qed

text \<open>
  Claim C9, as amended. The relationship upsert does not compare the two endpoints:
  it accepts every relationship (when the statement succeeds), and a store without
  self-edges stays without self-edges exactly when the relationship written has
  different source and target ids. The cross-reference step, the one caller in the
  repository, builds the source id from the prefix \<open>flutter_api_call_\<close> and the target
  id from the prefix \<open>python_endpoint_\<close>, so it never adds a self-edge.
\<close>

theorem store_accepts_any_endpoints:
  assumes "no_self_edge db"
  shows "fst (add_relationship True t r db)
         \<and> (no_self_edge (snd (add_relationship True t r db))
              \<longleftrightarrow> rel_source_entity_id r \<noteq> rel_target_entity_id r)
         \<and> no_self_edge (snd (create_cross_references h ok t' fr pr db))"
  using assms add_relationship_self_edge[OF assms, of t r]
    cross_references_loop_no_self_edge[OF assms]
  by (simp add: create_cross_references_def add_relationship_def)

theorem store_accepts_any_endpoints_witness:
  "no_self_edge init_db
   \<and> fst (add_relationship True 5 (cross_reference (\<lambda>p. 17) 5 users_call users_endpoint) init_db)
   \<and> no_self_edge (snd (add_relationship True 5
                          (cross_reference (\<lambda>p. 17) 5 users_call users_endpoint) init_db))
   \<and> rel_source_entity_id (cross_reference (\<lambda>p. 17) 5 users_call users_endpoint)
        = ''flutter_api_call_17_12''
   \<and> rel_target_entity_id (cross_reference (\<lambda>p. 17) 5 users_call users_endpoint)
        = ''python_endpoint_list_users_17''
   \<and> map rr_id (relationships (snd (create_cross_references (\<lambda>p. 17) True 6
                                       home_flutter home_python init_db)))
        = [''api_call_17_17'']
   \<and> no_self_edge (snd (create_cross_references (\<lambda>p. 17) True 6
                          home_flutter home_python init_db))"
proof -
  have a: "no_self_edge init_db" by (simp add: no_self_edge_def init_db_def)
  have s: "rel_source_entity_id (cross_reference (\<lambda>p. 17) 5 users_call users_endpoint)
        = ''flutter_api_call_17_12''" by code_simp
  have g: "rel_target_entity_id (cross_reference (\<lambda>p. 17) 5 users_call users_endpoint)
        = ''python_endpoint_list_users_17''" by code_simp
  have m: "map rr_id (relationships (snd (create_cross_references (\<lambda>p. 17) True 6
                                       home_flutter home_python init_db)))
        = [''api_call_17_17'']" by code_simp
  from store_accepts_any_endpoints[OF a, of 5
         "cross_reference (\<lambda>p. 17) 5 users_call users_endpoint" "\<lambda>p. 17" True 6
         home_flutter home_python] a s g m
  show ?thesis by simp
qed

text \<open>
  A relationship from the entity \<open>e1\<close> to itself is accepted and stored as given.
\<close>

theorem self_edge_accepted:
  "add_relationship True 7
     \<lparr>rel_id = ''r1'', rel_source_entity_id = ''e1'', rel_target_entity_id = ''e1'',
      rel_relationship_type = ''uses'', rel_metadata = JObj [], rel_created_at = 7\<rparr> init_db
   = (True,
      \<lparr>code_entities = [],
       relationships =
         [\<lparr>rr_id = ''r1'', rr_source_entity_id = ''e1'', rr_target_entity_id = ''e1'',
           rr_relationship_type = ''uses'', rr_metadata = JObj [], rr_created_at = 7\<rparr>],
       api_mappings = []\<rparr>)"
  by (simp add: add_relationship_def init_db_def insert_or_replace_def)

text \<open>
  Claim C4. Upserting an entity again must leave \<open>created_at\<close> at the time of the first
  insert and move only \<open>updated_at\<close>. The statement \<^verbatim>\<open>INSERT OR REPLACE\<close> deletes the
  old row and inserts a new one, whose \<open>created_at\<close> takes its default, the current
  time: an entity written at time 100 and again at time 200 has one row, with
  \<open>created_at\<close> 200.
\<close>

theorem upsert_resets_created_at:
  "map (\<lambda>r. (er_id r, er_created_at r, er_updated_at r))
     (code_entities (snd (add_entity True 100 (widget_entity (\<lambda>p. 17) 100 home_widget) init_db)))
     = [(''flutter_widget_HomePage_17'', 100, 100)]
   \<and> map (\<lambda>r. (er_id r, er_created_at r, er_updated_at r))
       (code_entities
          (snd (add_entity True 200 (widget_entity (\<lambda>p. 17) 200 home_widget)
             (snd (add_entity True 100 (widget_entity (\<lambda>p. 17) 100 home_widget) init_db)))))
     = [(''flutter_widget_HomePage_17'', 200, 200)]"
  by code_simp

text \<open>After an upsert there is exactly one row with the entity's id, stamped with the time of the write.\<close>

lemma upsert_single_row:
  "filter (\<lambda>r. er_id r = ce_id e) (code_entities (snd (add_entity True t e db)))
     = [\<lparr>er_id = ce_id e, er_type = ce_type e, er_name = ce_name e,
          er_file_path = ce_file_path e, er_language = ce_language e,
          er_metadata = ce_metadata e, er_created_at = t, er_updated_at = t\<rparr>]"
  by (simp add: add_entity_def insert_or_replace_def)

text \<open>
  Claim C3. Entity ids must be the same in every run over the same source, so that
  a repeated run replaces rows. The ids contain \<^verbatim>\<open>hash(file_path)\<close>, which differs
  between two interpreter processes: with the hash of every path 17 in the first
  process and 42 in the second, the second run over the same results adds two rows
  to the two of the first run.
\<close>

theorem rerun_in_other_process_duplicates:
  "entity_ids (store_analysis_results (\<lambda>p. 17) True 100 home_flutter home_python init_db)
     = [''flutter_widget_HomePage_17'', ''python_endpoint_list_users_17'']
   \<and> entity_ids (store_analysis_results (\<lambda>p. 42) True 200 home_flutter home_python
        (store_analysis_results (\<lambda>p. 17) True 100 home_flutter home_python init_db))
     = [''flutter_widget_HomePage_17'', ''python_endpoint_list_users_17'',
        ''flutter_widget_HomePage_42'', ''python_endpoint_list_users_42'']"
  by code_simp

section \<open>Properties of the cross-reference builders\<close>

lemma map_api_calls_loop_str:
  assumes "\<forall>(c, e)\<in>set ps. \<exists>p. ep_path e = CStr p"
  shows "map_api_calls_loop ps =
           Inr (map (\<lambda>(c, e). mapping_of c e (path_str e))
                  (filter (\<lambda>(c, e). endpoints_match (ac_endpoint c) (path_str e)
                                     \<and> upper (ac_method c) = ep_method e) ps))"
  using assms
proof (induction ps)
  case Nil
  then show ?case by simp
next
  case (Cons a ps)
  obtain c e where a: "a = (c, e)" by (cases a)
  from Cons.prems obtain p where p: "ep_path e = CStr p" by (auto simp: a)
  from Cons have "map_api_calls_loop ps =
           Inr (map (\<lambda>(c, e). mapping_of c e (path_str e))
                  (filter (\<lambda>(c, e). endpoints_match (ac_endpoint c) (path_str e)
                                     \<and> upper (ac_method c) = ep_method e) ps))"
    by simp
  then show ?case by (simp add: a p path_str_def)
qed

text \<open>
  On route records as the backend extractor builds them (a string path, an uppercase
  verb) \<^verbatim>\<open>_map_api_calls\<close> creates a mapping for a pair exactly when the described
  rule holds of it.
\<close>

lemma map_api_calls_rule:
  assumes "\<forall>e\<in>set (pr_endpoints pr). \<exists>p. ep_path e = CStr p"
      and "\<forall>e\<in>set (pr_endpoints pr). ep_method e = upper (ep_method e)"
  shows "map_api_calls fr pr =
           Inr (map (\<lambda>(c, e). mapping_of c e (path_str e))
                  (filter (\<lambda>(c, e). spec_mapping_rule c e (path_str e))
                     (call_endpoint_pairs (fr_api_calls fr) (pr_endpoints pr))))"
proof -
  have "map_api_calls fr pr =
           Inr (map (\<lambda>(c, e). mapping_of c e (path_str e))
                  (filter (\<lambda>(c, e). endpoints_match (ac_endpoint c) (path_str e)
                                     \<and> upper (ac_method c) = ep_method e)
                     (call_endpoint_pairs (fr_api_calls fr) (pr_endpoints pr))))"
    unfolding map_api_calls_def
    by (rule map_api_calls_loop_str) (use assms(1) in \<open>auto simp: call_endpoint_pairs_def\<close>)
  moreover have "filter (\<lambda>(c, e). endpoints_match (ac_endpoint c) (path_str e)
                                     \<and> upper (ac_method c) = ep_method e)
                     (call_endpoint_pairs (fr_api_calls fr) (pr_endpoints pr))
      = filter (\<lambda>(c, e). spec_mapping_rule c e (path_str e))
                     (call_endpoint_pairs (fr_api_calls fr) (pr_endpoints pr))"
    by (rule filter_cong)
      (use assms(2) in \<open>auto simp: call_endpoint_pairs_def spec_mapping_rule_def
          endpoints_match_def clean_path_def Let_def\<close>)
  ultimately show ?thesis by simp
qed

text \<open>
  Claim C8. A mapping between a UI call and a route must be created exactly when the
  normalized paths contain one another and the verbs are equal up to case, in every
  comparison, the one that persists api mappings included. The orchestrator's
  \<^verbatim>\<open>_create_api_mappings\<close> compares the paths as they are and never the verbs: for the
  call \<open>get /API/Users\<close> and the route \<open>GET /api/users\<close> the rule holds and
  \<^verbatim>\<open>_map_api_calls\<close> returns a mapping, but nothing is persisted; for the call
  \<open>post /api/users\<close> and the same route the rule fails and \<^verbatim>\<open>_map_api_calls\<close> returns
  nothing, but a mapping is persisted.
\<close>

theorem persisted_mappings_skip_normalization:
  "spec_mapping_rule users_call users_endpoint ''/api/users''
   \<and> map_api_calls \<lparr>fr_widgets = [], fr_api_calls = [users_call]\<rparr>
                    \<lparr>pr_endpoints = [users_endpoint], pr_models = []\<rparr>
       = Inr [mapping_of users_call users_endpoint ''/api/users'']
   \<and> create_api_mappings (\<lambda>p. 17) True 5 \<lparr>fr_widgets = [], fr_api_calls = [users_call]\<rparr>
                    \<lparr>pr_endpoints = [users_endpoint], pr_models = []\<rparr> init_db
       = (None, init_db)
   \<and> \<not> spec_mapping_rule post_users_call users_endpoint ''/api/users''
   \<and> map_api_calls \<lparr>fr_widgets = [], fr_api_calls = [post_users_call]\<rparr>
                    \<lparr>pr_endpoints = [users_endpoint], pr_models = []\<rparr>
       = Inr []
   \<and> map am_id (api_mappings (snd (create_api_mappings (\<lambda>p. 17) True 5
                    \<lparr>fr_widgets = [], fr_api_calls = [post_users_call]\<rparr>
                    \<lparr>pr_endpoints = [users_endpoint], pr_models = []\<rparr> init_db)))
       = [''flutter_api_call_17_20_python_endpoint_list_users_17'']"
  by code_simp

section \<open>Properties of the backend extractor\<close>

lemma decorator_endpoint_route:
  assumes "attr \<in> set route_verbs"
  shows "decorator_endpoint fp name lineno info (Call (Attribute v attr) args kws) =
     [\<lparr>ep_name = name, ep_method = upper attr,
       ep_path = (case args of Constant c # _ \<Rightarrow> c | _ \<Rightarrow> CStr []),
       ep_function_name = name, ep_file_path = fp, ep_line_number = lineno,
       ep_parameters = fi_parameters info, ep_return_type = fi_return_type info,
       ep_dependencies = fi_dependencies info, ep_middleware = fi_middleware info\<rparr>]"
proof -
  have "extract_path_from_decorator (Call (Attribute v attr) args kws)
          = (case args of Constant c # _ \<Rightarrow> c | _ \<Rightarrow> CStr [])"
    by (cases "(Call (Attribute v attr) args kws)" rule: extract_path_from_decorator.cases)
       (auto split: list.splits expr.splits)
  with assms show ?thesis by simp
qed

text \<open>A plain function reached by the walk yields a route for each route decorator.\<close>

lemma plain_function_route_extracted:
  assumes "FunctionDef name lineno decorator_list info body \<in> set (walk tree)"
      and "Call (Attribute v attr) args kws \<in> set decorator_list"
      and "attr \<in> set route_verbs"
  shows "\<lparr>ep_name = name, ep_method = upper attr,
          ep_path = (case args of Constant c # _ \<Rightarrow> c | _ \<Rightarrow> CStr []),
          ep_function_name = name, ep_file_path = fp, ep_line_number = lineno,
          ep_parameters = fi_parameters info, ep_return_type = fi_return_type info,
          ep_dependencies = fi_dependencies info, ep_middleware = fi_middleware info\<rparr>
         \<in> set (extract_fastapi_endpoints tree fp)"
proof -
  let ?r = "\<lparr>ep_name = name, ep_method = upper attr,
          ep_path = (case args of Constant c # _ \<Rightarrow> c | _ \<Rightarrow> CStr []),
          ep_function_name = name, ep_file_path = fp, ep_line_number = lineno,
          ep_parameters = fi_parameters info, ep_return_type = fi_return_type info,
          ep_dependencies = fi_dependencies info, ep_middleware = fi_middleware info\<rparr>"
  have "?r \<in> set (decorator_endpoint fp name lineno info (Call (Attribute v attr) args kws))"
    using decorator_endpoint_route[OF assms(3)] by simp
  with assms(2) have "?r \<in> set (node_endpoints fp (FunctionDef name lineno decorator_list info body))"
    by (simp only: node_endpoints.simps set_concat set_map) blast
  with assms(1) show ?thesis
    unfolding extract_fastapi_endpoints_def by (simp only: set_concat set_map) blast
qed

lemma walk_superset: "set todo \<subseteq> set (walk todo)"
proof (induction todo rule: walk.induct)
  case 1
  then show ?case by simp
next
  case (2 node todo)
  then show ?case by auto
qed


lemma walk_closed:
  "n \<in> set (walk todo) \<Longrightarrow> set (child_stmts n) \<subseteq> set (walk todo)"
proof (induction todo rule: walk.induct)
  case 1
  then show ?case by simp
next
  case (2 node todo)
  show ?case
  proof (cases "n = node")
    case True
    have "set (child_stmts node) \<subseteq> set (walk (todo @ child_stmts node))"
      using walk_superset[of "todo @ child_stmts node"] by simp
    with True show ?thesis by auto
  next
    case False
    with 2 show ?thesis by auto
  qed
qed

lemma decorator_endpoint_origin:
  assumes "r \<in> set (decorator_endpoint fp name lineno info d)"
  shows "\<exists>v attr args kws. d = Call (Attribute v attr) args kws \<and> attr \<in> set route_verbs
           \<and> ep_name r = name \<and> ep_method r = upper attr
           \<and> ep_path r = (case args of Constant c # _ \<Rightarrow> c | _ \<Rightarrow> CStr [])"
proof (cases "(fp, name, lineno, info, d)" rule: decorator_endpoint.cases)
  case (1 file_path name' lineno' info' v attr args kws)
  then have d: "d = Call (Attribute v attr) args kws" by simp
  from assms have a: "attr \<in> set route_verbs"
    unfolding d by (auto split: if_splits)
  from assms show ?thesis
    unfolding d decorator_endpoint_route[OF a] using a by auto
qed (use assms in auto)

text \<open>Every route record comes from a route decorator of a plain function.\<close>

lemma extracted_route_origin:
  assumes "r \<in> set (extract_fastapi_endpoints tree fp)"
  shows "\<exists>name lineno decorator_list info body v attr args kws.
           FunctionDef name lineno decorator_list info body \<in> set (walk tree)
           \<and> Call (Attribute v attr) args kws \<in> set decorator_list
           \<and> attr \<in> set route_verbs
           \<and> ep_name r = name \<and> ep_method r = upper attr
           \<and> ep_path r = (case args of Constant c # _ \<Rightarrow> c | _ \<Rightarrow> CStr [])"
proof -
  from assms obtain n where n: "n \<in> set (walk tree)" and r: "r \<in> set (node_endpoints fp n)"
    unfolding extract_fastapi_endpoints_def by auto
  from r obtain name lineno decorator_list info body where
    f: "n = FunctionDef name lineno decorator_list info body"
    by (cases n) auto
  from r obtain d where d: "d \<in> set decorator_list"
    and rd: "r \<in> set (decorator_endpoint fp name lineno info d)"
    unfolding f by (simp only: node_endpoints.simps set_concat set_map) blast
  from decorator_endpoint_origin[OF rd] d n f show ?thesis by blast
qed

text \<open>A coroutine contributes no route, whatever its decorators.\<close>

lemma async_function_no_route:
  "node_endpoints fp (AsyncFunctionDef name lineno decorator_list info body) = []"
  by simp

text \<open>
  Claim C5. Every function carrying a route decorator must yield a route record with
  the decorator's attribute name in upper case as method and the decorator's first
  literal argument as path. The walk tests \<^verbatim>\<open>isinstance(node, ast.FunctionDef)\<close>, which
  a coroutine (\<^verbatim>\<open>async def\<close>) does not satisfy: the route handler \<open>get_user\<close> of the
  repository's test, decorated with \<open>router.get("/users/{user_id}")\<close>, yields no record,
  while the same function written with a plain \<^verbatim>\<open>def\<close> yields the record the claim
  describes.
\<close>

theorem async_route_not_extracted:
  "extract_fastapi_endpoints [async_get_user] ''api/routes/users.py'' = []
   \<and> map (\<lambda>e. (ep_name e, ep_method e, ep_path e))
        (extract_fastapi_endpoints [plain_get_user] ''api/routes/users.py'')
      = [(''get_user'', ''GET'', CStr ''/users/{user_id}'')]"
  by code_simp

section \<open>Properties of the UI extractor\<close>

lemma find_upt_first:
  "a \<le> b \<Longrightarrow> b < n \<Longrightarrow> P b \<Longrightarrow> (\<And>k. a \<le> k \<Longrightarrow> k < b \<Longrightarrow> \<not> P k) \<Longrightarrow> find P [a..<n] = Some b"
proof (induction "b - a" arbitrary: a)
  case 0
  then have "a = b" by simp
  with 0 show ?case by (simp add: upt_conv_Cons)
next
  case (Suc d)
  then have ab: "a < b" and na: "\<not> P a" by auto
  from Suc.hyps(1)[of "Suc a"] Suc.prems Suc.hyps(2) ab
  have "find P [Suc a..<n] = Some b" by auto
  with ab Suc.prems(2) na show ?case by (simp add: upt_conv_Cons)
qed

lemma class_end_scan_skip:
  "\<forall>c\<in>set u. \<not> is_brace c \<Longrightarrow>
   class_end_scan (u @ rest) i bc ic = class_end_scan rest (i + length u) bc ic"
  by (induction u arbitrary: i) (auto simp: is_brace_def)

lemma slice_Suc:
  assumes "j \<le> i" and "i < length content"
  shows "slice content j (Suc i) = slice content j i @ [content ! i]"
proof -
  have "take (Suc (i - j)) (drop j content) = take (i - j) (drop j content) @ [drop j content ! (i - j)]"
    using assms by (intro take_Suc_conv_app_nth) simp
  with assms show ?thesis by (simp add: slice_def Suc_diff_le)
qed

lemma brace_depth_start:
  "j < length content \<Longrightarrow> content ! j = CHR ''{'' \<Longrightarrow> brace_depth content j j = 1"
  using slice_Suc[of j j content] by (simp add: brace_depth_def slice_def)

lemma brace_depth_step:
  assumes "j \<le> i" and "Suc i < length content"
  shows "brace_depth content j (Suc i) =
           brace_depth content j i
           + (if content ! Suc i = CHR ''{'' then 1 else if content ! Suc i = CHR ''}'' then - 1 else 0)"
  using slice_Suc[of j "Suc i" content] assms by (simp add: brace_depth_def)

lemma class_end_scan_find:
  assumes "j < i" and "i \<le> length content" and "bc = brace_depth content j (i - 1)" and "0 < bc"
  shows "class_end_scan (drop i content) i bc True
           = find (\<lambda>k. brace_depth content j k = 0) [i ..< length content]"
  using assms
proof (induction "length content - i" arbitrary: i bc)
  case 0
  then show ?case by simp
next
  case (Suc d)
  then have il: "i < length content" by simp
  then have dr: "drop i content = content ! i # drop (Suc i) content"
    by (simp add: Cons_nth_drop_Suc)
  from Suc.prems(1) obtain i' where i': "i = Suc i'" and ji': "j \<le> i'" by (cases i) auto
  have step: "brace_depth content j i =
           bc + (if content ! i = CHR ''{'' then 1 else if content ! i = CHR ''}'' then - 1 else 0)"
    using brace_depth_step[of j i' content] ji' il Suc.prems(3) by (simp add: i')
  have up: "[i ..< length content] = i # [Suc i ..< length content]"
    using il by (simp add: upt_conv_Cons)
  have IH: "class_end_scan (drop (Suc i) content) (Suc i) bc' True
           = find (\<lambda>k. brace_depth content j k = 0) [Suc i ..< length content]"
    if "bc' = brace_depth content j i" "0 < bc'" for bc'
    using Suc.hyps(1)[of "Suc i" bc'] Suc.hyps(2) Suc.prems(1) il that by simp
  show ?case
  proof (cases "content ! i = CHR ''{''")
    case True
    with step have d: "brace_depth content j i = bc + 1" by simp
    with True IH[of "bc + 1"] Suc.prems(4) show ?thesis
      by (simp add: dr up)
  next
    case False
    note nopen = False
    show ?thesis
    proof (cases "content ! i = CHR ''}''")
      case True
      with step have d: "brace_depth content j i = bc - 1" by simp
      show ?thesis
      proof (cases "bc = 1")
        case True
        with d \<open>content ! i = CHR ''}''\<close> show ?thesis by (simp add: dr up)
      next
        case False
        with Suc.prems(4) have "0 < bc - 1" by simp
        with IH[of "bc - 1"] d False \<open>content ! i = CHR ''}''\<close> show ?thesis
          by (simp add: dr up)
      qed
    next
      case False
      with step nopen have d: "brace_depth content j i = bc" by simp
      with IH[of bc] Suc.prems(4) False nopen show ?thesis
        by (simp add: dr up)
    qed
  qed
qed

lemma class_end_scan_from_open:
  assumes "j < length content" and "content ! j = CHR ''{''"
  shows "class_end_scan (drop j content) j 0 False
           = find (\<lambda>k. brace_depth content j k = 0) [j ..< length content]"
proof -
  have dr: "drop j content = CHR ''{'' # drop (Suc j) content"
    using assms by (simp add: Cons_nth_drop_Suc[symmetric])
  have up: "[j ..< length content] = j # [Suc j ..< length content]"
    using assms by (simp add: upt_conv_Cons)
  have d: "brace_depth content j j = 1" using assms by (rule brace_depth_start)
  have "class_end_scan (drop (Suc j) content) (Suc j) 1 True
           = find (\<lambda>k. brace_depth content j k = 0) [Suc j ..< length content]"
    using class_end_scan_find[of j "Suc j" content 1] assms d by simp
  then show ?thesis by (simp add: dr up d)
qed

lemma runs_Lit_elim:
  "(marks, e) \<in> set (runs (Lit l # pat) t) \<Longrightarrow>
   \<exists>marks' e' t'. t = l @ t' \<and> (marks', e') \<in> set (runs pat t') \<and> e = length l + e'"
  by (fastforce simp: prefix_def split: if_splits)

lemma runs_One_elim:
  "(marks, e) \<in> set (runs (One p # pat) t) \<Longrightarrow>
   \<exists>marks' e' c cs. t = c # cs \<and> p c \<and> (marks', e') \<in> set (runs pat cs) \<and> e = Suc e'"
  by (fastforce split: list.splits if_splits)

lemma runs_Rep_elim:
  "(marks, e) \<in> set (runs (Rep n p # pat) t) \<Longrightarrow>
   \<exists>k marks' e'. n \<le> k \<and> k \<le> length (takeWhile p t)
      \<and> (marks', e') \<in> set (runs pat (drop k t)) \<and> e = k + e'"
  by (fastforce simp: less_Suc_eq_le)

lemma runs_Mark_elim:
  "(marks, e) \<in> set (runs (Mark # pat) t) \<Longrightarrow> \<exists>marks'. (marks', e) \<in> set (runs pat t)"
  by fastforce

lemma take_takeWhile:
  "k \<le> length (takeWhile p t) \<Longrightarrow> k \<le> length t \<and> (\<forall>c\<in>set (take k t). p c)"
proof (induction t arbitrary: k)
  case Nil
  then show ?case by simp
next
  case (Cons x t)
  then show ?case by (cases k) (auto split: if_splits)
qed

text \<open>A match covers a prefix of the text, made of characters its atoms accept.\<close>

lemma runs_accepts:
  "(marks, e) \<in> set (runs pat t) \<Longrightarrow>
   e \<le> length t \<and> (\<forall>c\<in>set (take e t). \<exists>a\<in>set pat. atom_accepts a c)"
proof (induction pat arbitrary: t marks e)
  case Nil
  then show ?case by simp
next
  case (Cons a pat)
  show ?case
  proof (cases a)
    case (Lit l)
    with Cons.prems obtain marks' e' t' where t: "t = l @ t'"
      and r: "(marks', e') \<in> set (runs pat t')" and e: "e = length l + e'"
      by (blast dest: runs_Lit_elim)
    from Cons.IH[OF r] show ?thesis by (auto simp: Lit e t)
  next
    case (One p)
    with Cons.prems obtain marks' e' c cs where t: "t = c # cs" and pc: "p c"
      and r: "(marks', e') \<in> set (runs pat cs)" and e: "e = Suc e'"
      by (blast dest: runs_One_elim)
    from Cons.IH[OF r] pc show ?thesis by (auto simp: One e t)
  next
    case (Rep n p)
    with Cons.prems obtain k marks' e' where k: "k \<le> length (takeWhile p t)"
      and r: "(marks', e') \<in> set (runs pat (drop k t))" and e: "e = k + e'"
      by (blast dest: runs_Rep_elim)
    from take_takeWhile[OF k] have kt: "k \<le> length t" and pk: "\<forall>c\<in>set (take k t). p c"
      by simp_all
    have "take e t = take k t @ take e' (drop k t)"
      using kt by (simp add: e take_add)
    with Cons.IH[OF r] pk kt show ?thesis by (auto simp: Rep e)
  next
    case Mark
    with Cons.prems obtain marks' where "(marks', e) \<in> set (runs pat t)"
      by (blast dest: runs_Mark_elim)
    from Cons.IH[OF this] show ?thesis by (auto simp: Mark)
  qed
qed

lemma runs_Lit_intro:
  "(marks', e') \<in> set (runs pat t') \<Longrightarrow>
   (map ((+) (length l)) marks', length l + e') \<in> set (runs (Lit l # pat) (l @ t'))"
  by force

lemma runs_One_intro:
  "p c \<Longrightarrow> (marks', e') \<in> set (runs pat cs) \<Longrightarrow>
   (map ((+) 1) marks', Suc e') \<in> set (runs (One p # pat) (c # cs))"
  by force

lemma runs_Rep_intro:
  "n \<le> k \<Longrightarrow> k \<le> length (takeWhile p t) \<Longrightarrow> (marks', e') \<in> set (runs pat (drop k t)) \<Longrightarrow>
   (map ((+) k) marks', k + e') \<in> set (runs (Rep n p # pat) t)"
  by (force simp: less_Suc_eq_le)

lemma runs_Mark_intro:
  "(marks', e') \<in> set (runs pat t) \<Longrightarrow> (0 # marks', e') \<in> set (runs (Mark # pat) t)"
  by force

text \<open>A pattern that ends in a literal: the match ends with that literal.\<close>

lemma runs_last_Lit:
  "(marks, e) \<in> set (runs (pat @ [Lit l]) t) \<Longrightarrow>
   \<exists>marks' e'. (marks', e') \<in> set (runs pat t) \<and> e = e' + length l
      \<and> e \<le> length t \<and> take (length l) (drop e' t) = l"
proof (induction pat arbitrary: t marks e)
  case Nil
  then show ?case by (auto simp: prefix_def split: if_splits)
next
  case (Cons a pat)
  show ?case
  proof (cases a)
    case (Lit l')
    with Cons.prems have "(marks, e) \<in> set (runs (Lit l' # (pat @ [Lit l])) t)"
      by (simp only: append_Cons)
    from runs_Lit_elim[OF this] obtain marks1 e1 t' where t: "t = l' @ t'"
      and r: "(marks1, e1) \<in> set (runs (pat @ [Lit l]) t')" and e: "e = length l' + e1"
      by blast
    from Cons.IH[OF r] obtain marks' e' where r': "(marks', e') \<in> set (runs pat t')"
      and e1: "e1 = e' + length l" "e1 \<le> length t'" "take (length l) (drop e' t') = l"
      by blast
    have "e = (length l' + e') + length l" "e \<le> length t"
      "take (length l) (drop (length l' + e') t) = l"
      using e1 by (simp_all add: t e)
    with runs_Lit_intro[OF r', of l'] show ?thesis
      unfolding Lit t by blast
  next
    case (One p)
    with Cons.prems have "(marks, e) \<in> set (runs (One p # (pat @ [Lit l])) t)"
      by (simp only: append_Cons)
    from runs_One_elim[OF this] obtain marks1 e1 c cs where t: "t = c # cs" and pc: "p c"
      and r: "(marks1, e1) \<in> set (runs (pat @ [Lit l]) cs)" and e: "e = Suc e1"
      by blast
    from Cons.IH[OF r] obtain marks' e' where r': "(marks', e') \<in> set (runs pat cs)"
      and e1: "e1 = e' + length l" "e1 \<le> length cs" "take (length l) (drop e' cs) = l"
      by blast
    have "e = Suc e' + length l" "e \<le> length t" "take (length l) (drop (Suc e') t) = l"
      using e1 by (simp_all add: t e)
    with runs_One_intro[of p c marks' e' pat cs, OF pc r'] show ?thesis
      unfolding One t by blast
  next
    case (Rep n p)
    with Cons.prems have "(marks, e) \<in> set (runs (Rep n p # (pat @ [Lit l])) t)"
      by (simp only: append_Cons)
    from runs_Rep_elim[OF this] obtain k marks1 e1 where k: "n \<le> k" "k \<le> length (takeWhile p t)"
      and r: "(marks1, e1) \<in> set (runs (pat @ [Lit l]) (drop k t))" and e: "e = k + e1"
      by blast
    from take_takeWhile[OF k(2)] have kt: "k \<le> length t" by simp
    from Cons.IH[OF r] obtain marks' e' where r': "(marks', e') \<in> set (runs pat (drop k t))"
      and e1: "e1 = e' + length l" "e1 \<le> length (drop k t)"
        "take (length l) (drop e' (drop k t)) = l"
      by blast
    have "e = (k + e') + length l" "e \<le> length t" "take (length l) (drop (k + e') t) = l"
      using e1 kt by (simp_all add: e add.commute)
    with runs_Rep_intro[of n k p t marks' e' pat, OF k r'] show ?thesis
      unfolding Rep by blast
  next
    case Mark
    with Cons.prems have "(marks, e) \<in> set (runs (Mark # (pat @ [Lit l])) t)"
      by (simp only: append_Cons)
    from runs_Mark_elim[OF this] obtain marks1 where r: "(marks1, e) \<in> set (runs (pat @ [Lit l]) t)"
      by blast
    from Cons.IH[OF r] obtain marks' e' where r': "(marks', e') \<in> set (runs pat t)"
      and e1: "e = e' + length l" "e \<le> length t" "take (length l) (drop e' t) = l"
      by blast
    with runs_Mark_intro[OF r'] show ?thesis
      unfolding Mark by blast
  qed
qed

text \<open>Every match \<^verbatim>\<open>finditer\<close> yields is a match of the pattern at its start position.\<close>

lemma finditer_from_match:
  "m \<in> set (finditer_from pat s i) \<Longrightarrow>
   \<exists>k. i \<le> k \<and> k \<le> length s \<and> match_at pat s k = Some m"
proof (induction pat s i rule: finditer_from.induct)
  case (1 pat s i)
  show ?case
  proof (cases "length s < i")
    case True
    with "1.prems" show ?thesis by (simp add: finditer_from.simps)
  next
    case False
    show ?thesis
    proof (cases "match_at pat s i")
      case None
      with False "1.prems" have "m \<in> set (finditer_from pat s (Suc i))"
        by (simp add: finditer_from.simps[of pat s i])
      from "1.IH"(1)[OF False None this] show ?thesis by (metis Suc_leD)
    next
      case (Some m')
      with False "1.prems" have
        "m = m' \<or> m \<in> set (finditer_from pat s (if m_end m' \<le> i then Suc i else m_end m'))"
        by (simp add: finditer_from.simps[of pat s i])
      then show ?thesis
      proof
        assume "m = m'"
        with Some False show ?thesis by auto
      next
        assume "m \<in> set (finditer_from pat s (if m_end m' \<le> i then Suc i else m_end m'))"
        from "1.IH"(2)[OF False Some this] obtain k where
          "(if m_end m' \<le> i then Suc i else m_end m') \<le> k" "k \<le> length s"
          "match_at pat s k = Some m" by blast
        moreover from this(1) have "i \<le> k" by (auto split: if_splits)
        ultimately show ?thesis by blast
      qed
    qed
  qed
qed

lemma stateless_compiled:
  "re_compile stateless_pattern = widget_header ''StatelessWidget'' @ [Lit ''{'']"
  by (simp add: stateless_pattern_def widget_pattern_def re_compile_def widget_header_def
        backslash_def)

lemma stateful_compiled:
  "re_compile stateful_pattern = widget_header ''StatefulWidget'' @ [Lit ''{'']"
  by (simp add: stateful_pattern_def widget_pattern_def re_compile_def widget_header_def
        backslash_def)

lemma widget_header_no_brace:
  assumes "\<forall>c\<in>set base. \<not> is_brace c"
  shows "\<forall>a\<in>set (widget_header base). \<forall>c. atom_accepts a c \<longrightarrow> \<not> is_brace c"
  using assms by (auto simp: widget_header_def is_space_def is_word_def is_brace_def)

lemma match_at_runs:
  assumes "match_at pat s k = Some m"
  shows "m_start m = k \<and> (\<exists>marks e. (marks, e) \<in> set (runs pat (drop k s)) \<and> m_end m = k + e)"
  using assms by (auto simp: match_at_def split: list.splits)

lemma class_end_at_match:
  assumes m: "m \<in> set (finditer pattern content)"
      and c: "re_compile pattern = hdr @ [Lit ''{'']"
      and h: "\<forall>a\<in>set hdr. \<forall>c. atom_accepts a c \<longrightarrow> \<not> is_brace c"
  shows "find_class_end content (m_start m) = spec_end_line content (m_start m)
         \<and> first_open_brace content (m_start m) = Some (m_end m - 1)"
proof -
  let ?n = "length content"
  from m obtain k where kn: "k \<le> ?n" and ma: "match_at (hdr @ [Lit ''{'']) content k = Some m"
    unfolding finditer_def c by (blast dest: finditer_from_match)
  let ?t = "drop k content"
  from match_at_runs[OF ma] obtain marks e where st: "m_start m = k"
    and r: "(marks, e) \<in> set (runs (hdr @ [Lit ''{'']) ?t)" and en: "m_end m = k + e" by blast
  from runs_last_Lit[OF r] obtain marks' e' where r': "(marks', e') \<in> set (runs hdr ?t)"
    and e: "e = e' + 1" and el: "e \<le> length ?t" and br: "take 1 (drop e' ?t) = ''{''"
    by auto
  from runs_accepts[OF r'] h have nb: "\<forall>c\<in>set (take e' ?t). \<not> is_brace c" by blast
  let ?j = "k + e'"
  have jn: "?j < ?n" using e el by simp
  have "drop e' ?t = content ! ?j # drop (Suc ?j) content"
    using jn by (simp add: Cons_nth_drop_Suc add.commute)
  with br have cj: "content ! ?j = CHR ''{''" by simp
  have sp: "?t = take e' ?t @ drop ?j content"
    by (metis append_take_drop_id drop_drop add.commute)
  have "class_end_scan ?t k 0 False = class_end_scan (drop ?j content) ?j 0 False"
    using class_end_scan_skip[OF nb, of "drop ?j content" k 0 False] sp e el by simp
  also have "\<dots> = find (\<lambda>i. brace_depth content ?j i = 0) [?j ..< ?n]"
    using jn cj by (rule class_end_scan_from_open)
  finally have scan: "class_end_scan ?t k 0 False
      = find (\<lambda>i. brace_depth content ?j i = 0) [?j ..< ?n]" .
  have before: "content ! x \<noteq> CHR ''{''" if "k \<le> x" "x < ?j" for x
  proof -
    from that jn have "content ! x = ?t ! (x - k)" by simp
    moreover from that e el have "?t ! (x - k) \<in> set (take e' ?t)"
      by (metis (no_types, lifting) add.commute add_le_cancel_left in_set_conv_nth
          le_add_diff_inverse length_take less_diff_conv2 min.absorb2 nth_take
          add_leD1 nat_add_left_cancel_less)
    ultimately show ?thesis using nb by (auto simp: is_brace_def)
  qed
  have fo: "first_open_brace content k = Some ?j"
    unfolding first_open_brace_def
    using jn cj before by (intro find_upt_first) auto
  have "find_class_end content k = spec_end_line content k"
    by (simp add: find_class_end_def spec_end_line_def balanced_close_def fo scan line_of_def
          split: option.split)
  with fo st en e show ?thesis by simp
qed

lemma runs_Rep_text:
  assumes "(marks, e) \<in> set (runs (Rep n p # pat) t)"
  shows "\<exists>w t' marks' e'. t = w @ t' \<and> n \<le> length w \<and> list_all p w
           \<and> (marks', e') \<in> set (runs pat t') \<and> e = length w + e'"
proof -
  from runs_Rep_elim[OF assms] obtain k marks' e' where k: "n \<le> k" "k \<le> length (takeWhile p t)"
    and r: "(marks', e') \<in> set (runs pat (drop k t))" and e: "e = k + e'" by blast
  from take_takeWhile[OF k(2)] have "k \<le> length t" "\<forall>c\<in>set (take k t). p c" by simp_all
  then have "t = take k t @ drop k t" "n \<le> length (take k t)" "list_all p (take k t)"
    "e = length (take k t) + e'"
    using k e by (simp_all add: list_all_iff)
  with r show ?thesis by blast
qed

lemma runs_Lits_text:
  "(marks, e) \<in> set (runs (map (\<lambda>c. Lit [c]) l @ pat) t) \<Longrightarrow>
   \<exists>t' marks' e'. t = l @ t' \<and> (marks', e') \<in> set (runs pat t') \<and> e = length l + e'"
proof (induction l arbitrary: t marks e)
  case Nil
  then show ?case by auto
next
  case (Cons c l)
  then have "(marks, e) \<in> set (runs (Lit [c] # (map (\<lambda>c. Lit [c]) l @ pat)) t)" by simp
  from runs_Lit_elim[OF this] obtain marks1 e1 t1 where t: "t = [c] @ t1"
    and r: "(marks1, e1) \<in> set (runs (map (\<lambda>c. Lit [c]) l @ pat) t1)" and e: "e = length [c] + e1"
    by blast
  from Cons.IH[OF r] obtain t' marks' e' where "t1 = l @ t'" "(marks', e') \<in> set (runs pat t')"
    "e1 = length l + e'" by blast
  with t e show ?case by auto
qed

text \<open>What a class-declaration pattern matches.\<close>

lemma widget_runs_structure:
  assumes "(marks, e) \<in> set (runs (widget_header base @ [Lit ''{'']) t)"
  shows "\<exists>w1 n w2 w3 w4 rest. t = decl_text base w1 n w2 w3 w4 @ rest
           \<and> e = length (decl_text base w1 n w2 w3 w4) \<and> well_formed_decl w1 n w2 w3 w4"
proof -
  from assms have "(marks, e) \<in> set (runs (map (\<lambda>c. Lit [c]) ''class'' @
      (Rep 1 is_space # Mark # Rep 1 is_word # Mark # Rep 1 is_space #
        (map (\<lambda>c. Lit [c]) ''extends'' @ (Rep 1 is_space #
          (map (\<lambda>c. Lit [c]) base @ [Rep 0 is_space, Lit ''{'']))))) t)"
    by (simp only: widget_header_def append_assoc append_Cons append_Nil)
  from runs_Lits_text[OF this] obtain t1 m1 e1 where t1: "t = ''class'' @ t1"
    "e = length ''class'' + e1"
    and r1: "(m1, e1) \<in> set (runs (Rep 1 is_space # Mark # Rep 1 is_word # Mark # Rep 1 is_space #
        (map (\<lambda>c. Lit [c]) ''extends'' @ (Rep 1 is_space #
          (map (\<lambda>c. Lit [c]) base @ [Rep 0 is_space, Lit ''{''])))) t1)"
    by blast
  from runs_Rep_text[OF r1] obtain w1 t2 m2 e2 where t2: "t1 = w1 @ t2" "e1 = length w1 + e2"
    and w1: "1 \<le> length w1" "list_all is_space w1"
    and r2: "(m2, e2) \<in> set (runs (Mark # Rep 1 is_word # Mark # Rep 1 is_space #
        (map (\<lambda>c. Lit [c]) ''extends'' @ (Rep 1 is_space #
          (map (\<lambda>c. Lit [c]) base @ [Rep 0 is_space, Lit ''{''])))) t2)"
    by blast
  from runs_Mark_elim[OF r2] obtain m3 where
    r3: "(m3, e2) \<in> set (runs (Rep 1 is_word # Mark # Rep 1 is_space #
        (map (\<lambda>c. Lit [c]) ''extends'' @ (Rep 1 is_space #
          (map (\<lambda>c. Lit [c]) base @ [Rep 0 is_space, Lit ''{''])))) t2)"
    by blast
  from runs_Rep_text[OF r3] obtain n t4 m4 e4 where t4: "t2 = n @ t4" "e2 = length n + e4"
    and n: "1 \<le> length n" "list_all is_word n"
    and r4: "(m4, e4) \<in> set (runs (Mark # Rep 1 is_space #
        (map (\<lambda>c. Lit [c]) ''extends'' @ (Rep 1 is_space #
          (map (\<lambda>c. Lit [c]) base @ [Rep 0 is_space, Lit ''{''])))) t4)"
    by blast
  from runs_Mark_elim[OF r4] obtain m5 where
    r5: "(m5, e4) \<in> set (runs (Rep 1 is_space #
        (map (\<lambda>c. Lit [c]) ''extends'' @ (Rep 1 is_space #
          (map (\<lambda>c. Lit [c]) base @ [Rep 0 is_space, Lit ''{''])))) t4)"
    by blast
  from runs_Rep_text[OF r5] obtain w2 t6 m6 e6 where t6: "t4 = w2 @ t6" "e4 = length w2 + e6"
    and w2: "1 \<le> length w2" "list_all is_space w2"
    and r6: "(m6, e6) \<in> set (runs (map (\<lambda>c. Lit [c]) ''extends'' @ (Rep 1 is_space #
          (map (\<lambda>c. Lit [c]) base @ [Rep 0 is_space, Lit ''{'']))) t6)"
    by blast
  from runs_Lits_text[OF r6] obtain t7 m7 e7 where t7: "t6 = ''extends'' @ t7"
    "e6 = length ''extends'' + e7"
    and r7: "(m7, e7) \<in> set (runs (Rep 1 is_space #
          (map (\<lambda>c. Lit [c]) base @ [Rep 0 is_space, Lit ''{''])) t7)"
    by blast
  from runs_Rep_text[OF r7] obtain w3 t8 m8 e8 where t8: "t7 = w3 @ t8" "e7 = length w3 + e8"
    and w3: "1 \<le> length w3" "list_all is_space w3"
    and r8: "(m8, e8) \<in> set (runs (map (\<lambda>c. Lit [c]) base @ [Rep 0 is_space, Lit ''{'']) t8)"
    by blast
  from runs_Lits_text[OF r8] obtain t9 m9 e9 where t9: "t8 = base @ t9" "e8 = length base + e9"
    and r9: "(m9, e9) \<in> set (runs [Rep 0 is_space, Lit ''{''] t9)"
    by blast
  from runs_Rep_text[OF r9] obtain w4 t10 m10 e10 where t10: "t9 = w4 @ t10" "e9 = length w4 + e10"
    and w4: "list_all is_space w4"
    and r10: "(m10, e10) \<in> set (runs [Lit ''{''] t10)"
    by blast
  from runs_Lit_elim[OF r10] obtain m11 e11 rest where t11: "t10 = ''{'' @ rest"
    "e10 = length ''{'' + e11" and r11: "(m11, e11) \<in> set (runs [] rest)"
    by blast
  from r11 have e11: "e11 = 0" by simp
  have "t = decl_text base w1 n w2 w3 w4 @ rest"
    by (simp add: decl_text_def t1 t2 t4 t6 t7 t8 t9 t10 t11)
  moreover have "e = length (decl_text base w1 n w2 w3 w4)"
    by (simp add: decl_text_def t1 t2 t4 t6 t7 t8 t9 t10 t11 e11)
  moreover have "well_formed_decl w1 n w2 w3 w4"
    using w1 n w2 w3 w4 by (auto simp: well_formed_decl_def)
  ultimately show ?thesis by blast
qed

lemma split_unique:
  assumes eq: "a @ b = a' @ b'"
      and a: "list_all P a" "list_all P a'"
      and b: "b \<noteq> []" "\<not> P (hd b)" "b' \<noteq> []" "\<not> P (hd b')"
  shows "a = a' \<and> b = b'"
proof -
  have tw: "takeWhile P (x @ y) = x" if "list_all P x" "y \<noteq> []" "\<not> P (hd y)" for x y
  proof -
    from that(2,3) have "takeWhile P y = []" by (cases y) auto
    with that(1) show ?thesis by (simp add: takeWhile_append2 list_all_iff)
  qed
  from tw[OF a(1) b(1,2)] tw[OF a(2) b(3,4)] eq have "a = a'" by simp
  with eq show ?thesis by simp
qed

lemma word_not_space: "is_word c \<Longrightarrow> \<not> is_space c"
  by (auto simp: is_word_def is_space_def)

lemma space_not_c: "is_space x \<Longrightarrow> x \<noteq> CHR ''c''"
  by (auto simp: is_space_def)

lemma class_word: "list_all is_word ''class''"
  by (simp add: is_word_def)

lemma extends_word: "list_all is_word ''extends''"
  by (simp add: is_word_def)

lemma nth_in_tl: "0 < d \<Longrightarrow> d < length xs \<Longrightarrow> xs ! d \<in> set (tl xs)"
  by (cases xs; cases d) auto


text \<open>No declaration starts inside the text of another one.\<close>

lemma decl_no_overlap:
  assumes base: "list_all (\<lambda>c. is_word c \<and> c \<noteq> CHR ''c'') base" "base \<noteq> []"
        "hd base \<noteq> CHR ''e''"
      and t: "t = decl_text base w1 n w2 w3 w4 @ rest" "well_formed_decl w1 n w2 w3 w4"
      and t': "drop d t = decl_text base w1' n' w2' w3' w4' @ rest'"
        "well_formed_decl w1' n' w2' w3' w4'"
      and d: "0 < d" "d < length (decl_text base w1 n w2 w3 w4)"
  shows False
proof -
  define A where "A = ''class'' @ w1"
  define B where "B = w2 @ ''extends'' @ w3 @ base @ w4 @ ''{''"
  have tA: "t = A @ n @ B @ rest" by (simp add: t(1) decl_text_def A_def B_def)
  have dl: "d < length (A @ n @ B)" using d(2) by (simp add: decl_text_def A_def B_def)
  from t(2) have wf: "w1 \<noteq> []" "list_all is_space w1" "n \<noteq> []" "list_all is_word n"
    "w2 \<noteq> []" "list_all is_space w2" "w3 \<noteq> []" "list_all is_space w3" "list_all is_space w4"
    by (simp_all add: well_formed_decl_def)
  from t'(2) have wf': "w1' \<noteq> []" "list_all is_space w1'" "n' \<noteq> []" "list_all is_word n'"
    "w2' \<noteq> []" "list_all is_space w2'" "w3' \<noteq> []" "list_all is_space w3'"
    by (simp_all add: well_formed_decl_def)
  have "hd (drop d t) = CHR ''c''" by (simp add: t'(1) decl_text_def)
  moreover have "d < length t" using dl by (simp add: tA)
  ultimately have c: "t ! d = CHR ''c''" by (simp add: hd_drop_conv_nth)
  have spc: "x \<noteq> CHR ''c''" if "x \<in> set w" "list_all is_space w" for x w
    using that space_not_c by (auto simp: list_all_iff)
  have noc_A: "x \<noteq> CHR ''c''" if "x \<in> set (tl A)" for x
  proof -
    from that have "x \<in> set ''lass'' \<or> x \<in> set w1" by (simp add: A_def)
    then show ?thesis using spc[OF _ wf(2)] by auto
  qed
  have noc_B: "x \<noteq> CHR ''c''" if "x \<in> set B" for x
  proof -
    from that have "x \<in> set w2 \<or> x \<in> set ''extends'' \<or> x \<in> set w3 \<or> x \<in> set base
        \<or> x \<in> set w4 \<or> x = CHR ''{''"
      by (auto simp: B_def)
    moreover have "y \<noteq> CHR ''c''" if "y \<in> set base" for y
      using that base(1) by (auto simp: list_all_iff)
    ultimately show ?thesis using spc[OF _ wf(6)] spc[OF _ wf(8)] spc[OF _ wf(9)] by auto
  qed
  have dA: "length A \<le> d"
  proof (rule ccontr)
    assume "\<not> length A \<le> d"
    then have "d < length A" by simp
    then have "t ! d = A ! d" by (simp add: tA nth_append)
    with nth_in_tl[OF d(1) \<open>d < length A\<close>] noc_A c show False by auto
  qed
  have dn: "d < length A + length n"
  proof (rule ccontr)
    assume "\<not> d < length A + length n"
    then have ge: "length A + length n \<le> d" by simp
    with dl have "d - length A - length n < length B" by simp
    moreover from ge have "\<not> d < length A" "\<not> d - length A < length n" by linarith+
    then have "t ! d = (B @ rest) ! (d - length A - length n)"
      by (simp add: tA nth_append)
    ultimately have "t ! d \<in> set B" by (simp add: nth_append)
    with noc_B c show False by auto
  qed
  define n2 where "n2 = drop (d - length A) n"
  have n2: "n2 \<noteq> []" "list_all is_word n2"
    using dA dn wf(4) by (auto simp: n2_def list_all_iff dest: in_set_dropD)
  have "drop d t = n2 @ B @ rest"
    using dA dn by (simp add: tA n2_def)
  with t'(1) have e1: "n2 @ (w2 @ ''extends'' @ w3 @ base @ w4 @ ''{'' @ rest)
      = ''class'' @ (w1' @ n' @ w2' @ ''extends'' @ w3' @ base @ w4' @ ''{'' @ rest')"
    by (simp add: decl_text_def B_def)
  have sp: "\<not> is_word (hd (w @ r))" if "w \<noteq> []" "list_all is_space w" for w r
    using that word_not_space by (cases w) auto
  have wd: "\<not> is_space (hd (w @ r))" if "w \<noteq> []" "list_all is_word w" for w r
    using that word_not_space by (cases w) auto
  have ne: "w @ r \<noteq> []" if "w \<noteq> []" for w r :: string
    using that by simp
  from split_unique[OF e1 n2(2) class_word ne[OF wf(5)] sp[OF wf(5,6)] ne[OF wf'(1)] sp[OF wf'(1,2)]]
  have e2: "w2 @ (''extends'' @ w3 @ base @ w4 @ ''{'' @ rest)
      = w1' @ (n' @ w2' @ ''extends'' @ w3' @ base @ w4' @ ''{'' @ rest')"
    by simp
  have ex: "''extends'' \<noteq> []" by simp
  from split_unique[OF e2 wf(6) wf'(2) ne[OF ex] wd[OF ex extends_word] ne[OF wf'(3)] wd[OF wf'(3,4)]]
  have e3: "''extends'' @ (w3 @ base @ w4 @ ''{'' @ rest)
      = n' @ (w2' @ ''extends'' @ w3' @ base @ w4' @ ''{'' @ rest')"
    by simp
  from split_unique[OF e3 extends_word wf'(4) ne[OF wf(7)] sp[OF wf(7,8)] ne[OF wf'(5)] sp[OF wf'(5,6)]]
  have e4: "w3 @ (base @ w4 @ ''{'' @ rest)
      = w2' @ (''extends'' @ w3' @ base @ w4' @ ''{'' @ rest')"
    by simp
  have bw: "list_all is_word base" using base(1) by (simp add: list_all_iff)
  from split_unique[OF e4 wf(8) wf'(6) ne[OF base(2)] wd[OF base(2) bw] ne[OF ex] wd[OF ex extends_word]]
  have "base @ w4 @ ''{'' @ rest = ''extends'' @ w3' @ base @ w4' @ ''{'' @ rest'"
    by simp
  then have "hd base = CHR ''e''" using base(2) by (cases base) auto
  with base(3) show False by simp
qed

lemma match_at_start: "match_at pat s k = Some m \<Longrightarrow> m_start m = k"
  by (auto simp: match_at_def split: list.splits)

lemma finditer_from_starts:
  "m \<in> set (finditer_from pat s i) \<Longrightarrow> i \<le> m_start m"
  by (auto dest!: finditer_from_match dest: match_at_start)

lemma finditer_from_distinct: "distinct (map m_start (finditer_from pat s i))"
proof (induction pat s i rule: finditer_from.induct)
  case (1 pat s i)
  show ?case
  proof (cases "length s < i")
    case True
    then show ?thesis by (simp add: finditer_from.simps)
  next
    case False
    show ?thesis
    proof (cases "match_at pat s i")
      case None
      with False "1.IH"(1) show ?thesis by (simp add: finditer_from.simps[of pat s i])
    next
      case (Some m')
      let ?next = "if m_end m' \<le> i then Suc i else m_end m'"
      have "i < ?next" by auto
      then have "m_start m' \<notin> m_start ` set (finditer_from pat s ?next)"
        using finditer_from_starts[of _ pat s ?next] match_at_start[OF Some] by fastforce
      with False Some "1.IH"(2)[OF False Some] show ?thesis
        by (simp add: finditer_from.simps[of pat s i])
    qed
  qed
qed

text \<open>
  A position where the pattern matches is the start of a match \<^verbatim>\<open>finditer\<close> yields,
  or lies inside one.
\<close>

lemma finditer_from_complete:
  "i \<le> k \<Longrightarrow> k \<le> length s \<Longrightarrow> match_at pat s k = Some m \<Longrightarrow>
   m \<in> set (finditer_from pat s i)
   \<or> (\<exists>m'\<in>set (finditer_from pat s i). m_start m' < k \<and> k < m_end m')"
proof (induction pat s i rule: finditer_from.induct)
  case (1 pat s i)
  from "1.prems" have nl: "\<not> length s < i" by simp
  show ?case
  proof (cases "match_at pat s i")
    case None
    with "1.prems" have "i \<noteq> k" by auto
    with "1.prems" have "Suc i \<le> k" by simp
    from "1.IH"(1)[OF nl None this "1.prems"(2,3)] nl None show ?thesis
      by (simp add: finditer_from.simps[of pat s i])
  next
    case (Some m')
    let ?next = "if m_end m' \<le> i then Suc i else m_end m'"
    have unfold: "finditer_from pat s i = m' # finditer_from pat s ?next"
      using nl Some by (simp add: finditer_from.simps[of pat s i])
    show ?thesis
    proof (cases "k = i")
      case True
      with Some "1.prems"(3) show ?thesis by (simp add: unfold)
    next
      case False
      with "1.prems"(1) have ik: "i < k" by simp
      show ?thesis
      proof (cases "?next \<le> k")
        case True
        from "1.IH"(2)[OF nl Some True "1.prems"(2,3)] show ?thesis
          by (auto simp: unfold)
      next
        case False
        with ik have "m_start m' < k \<and> k < m_end m'"
          using match_at_start[OF Some] by (auto split: if_splits)
        then show ?thesis by (auto simp: unfold)
      qed
    qed
  qed
qed

lemma filter_distinct_key:
  "distinct (map f xs) \<Longrightarrow> x \<in> set xs \<Longrightarrow> filter (\<lambda>y. f y = f x) xs = [x]"
proof (induction xs)
  case Nil
  then show ?case by simp
next
  case (Cons a xs)
  then show ?case
    by (auto simp: filter_empty_conv image_iff)
qed

lemma kind_compiled:
  "kind \<in> set widget_kinds \<Longrightarrow>
   re_compile (widget_pattern kind) = widget_header kind @ [Lit ''{'']"
  using stateless_compiled stateful_compiled
  by (auto simp: widget_kinds_def stateless_pattern_def stateful_pattern_def)

lemma kind_letters:
  "kind \<in> set widget_kinds \<Longrightarrow>
   list_all (\<lambda>c. is_word c \<and> c \<noteq> CHR ''c'') kind \<and> kind \<noteq> [] \<and> hd kind \<noteq> CHR ''e''
   \<and> (\<forall>c\<in>set kind. \<not> is_brace c)"
  by (auto simp: widget_kinds_def is_word_def is_brace_def)

lemma declaration_structure:
  assumes "kind \<in> set widget_kinds" and "declaration_at kind content k = Some m"
  shows "m_start m = k \<and>
         (\<exists>w1 n w2 w3 w4 rest. drop k content = decl_text kind w1 n w2 w3 w4 @ rest
            \<and> m_end m = k + length (decl_text kind w1 n w2 w3 w4)
            \<and> well_formed_decl w1 n w2 w3 w4)"
proof -
  from assms have "match_at (widget_header kind @ [Lit ''{'']) content k = Some m"
    by (simp add: declaration_at_def kind_compiled)
  from match_at_runs[OF this] obtain marks e where st: "m_start m = k"
    and r: "(marks, e) \<in> set (runs (widget_header kind @ [Lit ''{'']) (drop k content))"
    and en: "m_end m = k + e" by blast
  from widget_runs_structure[OF r] st en show ?thesis by blast
qed

text \<open>Every declaration in the text is found, once.\<close>

lemma declaration_found:
  assumes kind: "kind \<in> set widget_kinds" and d: "declaration_at kind content k = Some m"
  shows "filter (\<lambda>m'. m_start m' = k) (finditer (widget_pattern kind) content) = [m]"
proof -
  let ?pat = "re_compile (widget_pattern kind)"
  from declaration_structure[OF kind d] obtain w1 n w2 w3 w4 rest where st: "m_start m = k"
    and tk: "drop k content = decl_text kind w1 n w2 w3 w4 @ rest"
    and wf: "well_formed_decl w1 n w2 w3 w4" by blast
  from tk have "drop k content \<noteq> []" by (simp add: decl_text_def)
  then have kl: "k \<le> length content" by simp
  from d have ma: "match_at ?pat content k = Some m" by (simp add: declaration_at_def)
  have "m \<in> set (finditer_from ?pat content 0)"
  proof (rule ccontr)
    assume "m \<notin> set (finditer_from ?pat content 0)"
    with finditer_from_complete[OF _ kl ma, of 0] obtain m' where
      m': "m' \<in> set (finditer_from ?pat content 0)" and inside: "m_start m' < k" "k < m_end m'"
      by auto
    from finditer_from_match[OF m'] obtain k' where "match_at ?pat content k' = Some m'" by blast
    then have d': "declaration_at kind content (m_start m') = Some m'"
      using match_at_start by (fastforce simp: declaration_at_def)
    from declaration_structure[OF kind d'] obtain v1 n' v2 v3 v4 rest' where
      tk': "drop (m_start m') content = decl_text kind v1 n' v2 v3 v4 @ rest'"
      and en': "m_end m' = m_start m' + length (decl_text kind v1 n' v2 v3 v4)"
      and wf': "well_formed_decl v1 n' v2 v3 v4" by blast
    let ?d = "k - m_start m'"
    have dd: "drop ?d (drop (m_start m') content) = decl_text kind w1 n w2 w3 w4 @ rest"
      using inside(1) tk by simp
    have "0 < ?d" "?d < length (decl_text kind v1 n' v2 v3 v4)"
      using inside en' by simp_all
    with decl_no_overlap[OF _ _ _ tk' wf' dd wf] kind_letters[OF kind] show False
      by blast
  qed
  then have "m \<in> set (finditer (widget_pattern kind) content)" by (simp add: finditer_def)
  moreover have "distinct (map m_start (finditer (widget_pattern kind) content))"
    by (simp add: finditer_def finditer_from_distinct)
  ultimately show ?thesis using filter_distinct_key[of m_start _ m] st by simp
qed

lemma finditer_declaration:
  "m \<in> set (finditer (widget_pattern kind) content) \<Longrightarrow>
   declaration_at kind content (m_start m) = Some m"
  unfolding finditer_def declaration_at_def
  by (auto dest!: finditer_from_match dest: match_at_start)

text \<open>
  Claim C6. Widget extraction returns one record for each declaration of a stateless
  or stateful component it finds, in order; each of them is a declaration starting
  at the position of its match, and the end line recorded for it is the line where
  the brace depth, counted from the first opening brace at or after the start of the
  match (the opening brace of the declaration itself, the last character of the
  match), first returns to zero, or the last line of the file when it never does.
  Every position of the text where such a declaration starts is found exactly once,
  so each declaration has exactly one record.
\<close>

theorem widget_extraction_end_line:
  "extract_widgets content fp
     = map (\<lambda>(kind, m). widget_of content fp kind m) (widget_matches content)
   \<and> (\<forall>(kind, m)\<in>set (widget_matches content).
         declaration_at kind content (m_start m) = Some m
         \<and> fw_type (widget_of content fp kind m) = kind
         \<and> fw_line_end (widget_of content fp kind m) = spec_end_line content (m_start m)
         \<and> first_open_brace content (m_start m) = Some (m_end m - 1))
   \<and> (\<forall>kind\<in>set widget_kinds. \<forall>k m. declaration_at kind content k = Some m \<longrightarrow>
         filter (\<lambda>(kind', m'). kind' = kind \<and> m_start m' = k) (widget_matches content)
           = [(kind, m)])"
proof (intro conjI)
  show "extract_widgets content fp
     = map (\<lambda>(kind, m). widget_of content fp kind m) (widget_matches content)"
    by (simp add: extract_widgets_def widget_matches_def comp_def)
next
  have one: "declaration_at kind content (m_start m) = Some m
         \<and> fw_type (widget_of content fp kind m) = kind
         \<and> fw_line_end (widget_of content fp kind m) = spec_end_line content (m_start m)
         \<and> first_open_brace content (m_start m) = Some (m_end m - 1)"
    if kind: "kind \<in> set widget_kinds" and m: "m \<in> set (finditer (widget_pattern kind) content)"
    for kind m
  proof -
    from kind_letters[OF kind] have "\<forall>c\<in>set kind. \<not> is_brace c" by simp
    from class_end_at_match[OF m kind_compiled[OF kind] widget_header_no_brace[OF this]]
      finditer_declaration[OF m]
    show ?thesis by (simp add: widget_of_def)
  qed
  show "\<forall>(kind, m)\<in>set (widget_matches content).
         declaration_at kind content (m_start m) = Some m
         \<and> fw_type (widget_of content fp kind m) = kind
         \<and> fw_line_end (widget_of content fp kind m) = spec_end_line content (m_start m)
         \<and> first_open_brace content (m_start m) = Some (m_end m - 1)"
    using one[of "''StatelessWidget''"] one[of "''StatefulWidget''"]
    by (auto simp: widget_matches_def widget_kinds_def stateless_pattern_def
          stateful_pattern_def)
next
  show "\<forall>kind\<in>set widget_kinds. \<forall>k m. declaration_at kind content k = Some m \<longrightarrow>
         filter (\<lambda>(kind', m'). kind' = kind \<and> m_start m' = k) (widget_matches content)
           = [(kind, m)]"
  proof (intro ballI allI impI)
    fix kind k m
    assume kind: "kind \<in> set widget_kinds" and d: "declaration_at kind content k = Some m"
    have f: "filter (\<lambda>(kind', m'). kind' = kind0 \<and> m_start m' = k) (map (Pair kind'') ms)
          = (if kind'' = kind0 then map (Pair kind'') (filter (\<lambda>m'. m_start m' = k) ms) else [])"
      for kind0 kind'' :: string and ms
      by (induction ms) auto
    from kind consider "kind = ''StatelessWidget''" | "kind = ''StatefulWidget''"
      by (auto simp: widget_kinds_def)
    then show "filter (\<lambda>(kind', m'). kind' = kind \<and> m_start m' = k) (widget_matches content)
           = [(kind, m)]"
    proof cases
      case 1
      with declaration_found[OF kind d] show ?thesis
        by (simp add: widget_matches_def f stateless_pattern_def)
    next
      case 2
      with declaration_found[OF kind d] show ?thesis
        by (simp add: widget_matches_def f stateful_pattern_def)
    qed
  qed
qed

theorem widget_extraction_end_line_witness:
  "''StatelessWidget'' \<in> set widget_kinds
   \<and> declaration_at ''StatelessWidget'' sample_dart 0
        = Some \<lparr>m_start = 0, m_end = 36, m_marks = [6, 10]\<rparr>
   \<and> filter (\<lambda>(kind', m'). kind' = ''StatelessWidget'' \<and> m_start m' = 0)
         (widget_matches sample_dart)
        = [(''StatelessWidget'', \<lparr>m_start = 0, m_end = 36, m_marks = [6, 10]\<rparr>)]
   \<and> (''StatelessWidget'', \<lparr>m_start = 0, m_end = 36, m_marks = [6, 10]\<rparr>)
        \<in> set (widget_matches sample_dart)
   \<and> fw_line_end (widget_of sample_dart ''lib/home.dart'' ''StatelessWidget''
                     \<lparr>m_start = 0, m_end = 36, m_marks = [6, 10]\<rparr>) = 3
   \<and> (''StatefulWidget'', \<lparr>m_start = 53, m_end = 88, m_marks = [59, 64]\<rparr>)
        \<in> set (widget_matches sample_dart)
   \<and> balanced_close sample_dart 53 = None
   \<and> fw_line_end (widget_of sample_dart ''lib/home.dart'' ''StatefulWidget''
                     \<lparr>m_start = 53, m_end = 88, m_marks = [59, 64]\<rparr>) = 6
   \<and> map (\<lambda>w. (fw_name w, fw_type w, fw_line_start w, fw_line_end w))
         (extract_widgets sample_dart ''lib/home.dart'')
        = [(''Home'', ''StatelessWidget'', 1, 3), (''Login'', ''StatefulWidget'', 4, 6)]"
proof -
  let ?m0 = "\<lparr>m_start = 0, m_end = 36, m_marks = [6, 10]\<rparr>"
  let ?m1 = "\<lparr>m_start = 53, m_end = 88, m_marks = [59, 64]\<rparr>"
  have k: "''StatelessWidget'' \<in> set widget_kinds" by (simp add: widget_kinds_def)
  have d: "declaration_at ''StatelessWidget'' sample_dart 0 = Some ?m0" by code_simp
  have ms: "widget_matches sample_dart = [(''StatelessWidget'', ?m0), (''StatefulWidget'', ?m1)]"
    by code_simp
  have e0: "spec_end_line sample_dart 0 = 3" by code_simp
  have e1: "spec_end_line sample_dart 53 = 6" by code_simp
  have b1: "balanced_close sample_dart 53 = None" by code_simp
  have ex: "map (\<lambda>w. (fw_name w, fw_type w, fw_line_start w, fw_line_end w))
         (extract_widgets sample_dart ''lib/home.dart'')
        = [(''Home'', ''StatelessWidget'', 1, 3), (''Login'', ''StatefulWidget'', 4, 6)]"
    by code_simp
  note t = widget_extraction_end_line[of sample_dart "''lib/home.dart''"]
  from t k d have f: "filter (\<lambda>(kind', m'). kind' = ''StatelessWidget'' \<and> m_start m' = 0)
         (widget_matches sample_dart) = [(''StatelessWidget'', ?m0)]"
    by blast
  have i0: "(''StatelessWidget'', ?m0) \<in> set (widget_matches sample_dart)"
    and i1: "(''StatefulWidget'', ?m1) \<in> set (widget_matches sample_dart)"
    by (simp_all add: ms)
  from t i0 have l0: "fw_line_end (widget_of sample_dart ''lib/home.dart'' ''StatelessWidget'' ?m0)
      = spec_end_line sample_dart (m_start ?m0)"
    by blast
  from t i1 have l1: "fw_line_end (widget_of sample_dart ''lib/home.dart'' ''StatefulWidget'' ?m1)
      = spec_end_line sample_dart (m_start ?m1)"
    by blast
  from k d f i0 i1 l0 l1 e0 e1 b1 ex show ?thesis by simp
qed

text \<open>
  Claim C7. For every call \<open>dio.<verb>('<path>')\<close> or \<open>http.<verb>(Uri.parse('<path>'))\<close>
  in the text the extractor must produce one record with the verb as method, the
  path as endpoint and the line of the match. The method is cut out of the pattern
  text by \<^verbatim>\<open>pattern.split('\\')[1].split('(')[0]\<close>, which keeps the dot before the
  verb: on two calls of the repository's test the records have the endpoints and
  lines the claim describes, and the methods \<open>.post\<close> and \<open>.get\<close> where the claim (and
  the test) have \<open>post\<close> and \<open>get\<close>.
\<close>

theorem api_call_method_keeps_dot:
  "extract_api_calls test_api_source ''/test/api_service.dart''
   = [\<lparr>ac_type = ''dio'', ac_method = ''.post'', ac_endpoint = ''/api/v1/auth/login'',
        ac_file_path = ''/test/api_service.dart'', ac_line = 1\<rparr>,
      \<lparr>ac_type = ''http'', ac_method = ''.get'', ac_endpoint = ''/api/v1/data'',
        ac_file_path = ''/test/api_service.dart'', ac_line = 2\<rparr>]"
  by code_simp

text \<open>The method stored for each of the six patterns.\<close>

lemma pattern_methods:
  "map pattern_method dio_patterns = [''.get'', ''.post'', ''.put'', ''.delete'']"
  "map pattern_method http_patterns = [''.get'', ''.post'']"
  by code_simp+

end
